theory Spec2Isabelle
  imports Complex_Main "HOL-Library.Word"
begin

unbundle bit_operations_syntax

section \<open>Hash maps and the delta between two of them\<close>

text \<open>
  A relative path is the string \<open>str(f)\<close> of a tracked file, a digest is what
  \<open>hash_file\<close> returns. A Python \<open>dict\<close> keeps its items in insertion order and
  has each key once, so a hash map is the list of its items; \<open>distinct (map fst d)\<close>
  is the dictionary invariant, assumed only where a result needs it.
\<close>

type_synonym path = string
type_synonym digest = string
type_synonym hash_map = "(path \<times> digest) list"

definition keys :: "hash_map \<Rightarrow> path list" where
  \<comment> \<open>iterating a dict yields its keys\<close>
  "keys d = map fst d"

definition has_key :: "hash_map \<Rightarrow> path \<Rightarrow> bool" where
  \<comment> \<open>\<open>k in d\<close>\<close>
  "has_key d k = (map_of d k \<noteq> None)"

subsection \<open>\<open>show_status\<close>, lines 374 to 376\<close>

definition new_files :: "hash_map \<Rightarrow> hash_map \<Rightarrow> path list" where
  "new_files old_hashes current_hashes =
     [f \<leftarrow> keys current_hashes. \<not> has_key old_hashes f]"

definition changed_files :: "hash_map \<Rightarrow> hash_map \<Rightarrow> path list" where
  "changed_files old_hashes current_hashes =
     [f \<leftarrow> keys current_hashes.
        has_key old_hashes f \<and> map_of old_hashes f \<noteq> map_of current_hashes f]"

definition deleted_files :: "hash_map \<Rightarrow> hash_map \<Rightarrow> path list" where
  "deleted_files old_hashes current_hashes =
     [f \<leftarrow> keys old_hashes. \<not> has_key current_hashes f]"

definition unchanged_files :: "hash_map \<Rightarrow> hash_map \<Rightarrow> path list" where
  \<comment> \<open>the paths of the current map that none of the three comprehensions selects\<close>
  "unchanged_files old_hashes current_hashes =
     [f \<leftarrow> keys current_hashes.
        has_key old_hashes f \<and> map_of old_hashes f = map_of current_hashes f]"

definition status_no_changes :: "hash_map \<Rightarrow> hash_map \<Rightarrow> bool" where
  \<comment> \<open>line 378: \<open>not (new_files or changed_files or deleted_files)\<close>\<close>
  "status_no_changes old_hashes current_hashes =
     (new_files old_hashes current_hashes = [] \<and>
      changed_files old_hashes current_hashes = [] \<and>
      deleted_files old_hashes current_hashes = [])"

subsection \<open>The two loops of \<open>update_gitnot\<close>, lines 248 to 315\<close>

text \<open>
  The first loop runs over the items of the current map and takes its \<open>if\<close> branch
  (new file), its \<open>elif\<close> branch (modified file) or neither; the second runs over
  the keys of the old map. The branch taken is named here; the loops that act on
  it follow below with the state they change.
\<close>

datatype branch = New_file | Modified_file | No_branch

definition current_branch :: "hash_map \<Rightarrow> path \<times> digest \<Rightarrow> branch" where
  "current_branch old_hashes item =
     (case item of (rel_path, new_hash) \<Rightarrow>
        if \<not> has_key old_hashes rel_path then New_file
        else if map_of old_hashes rel_path \<noteq> Some new_hash then Modified_file
        else No_branch)"

definition old_branch :: "hash_map \<Rightarrow> path \<Rightarrow> bool" where
  \<comment> \<open>line 297\<close>
  "old_branch current_hashes rel_path = (\<not> has_key current_hashes rel_path)"

definition update_added :: "hash_map \<Rightarrow> hash_map \<Rightarrow> path list" where
  \<comment> \<open>the paths of the items on which the first loop takes its new-file branch, in the
      order of the loop; \<open>update_modified\<close> and \<open>update_deleted\<close> likewise for the
      modified-file branch and for the branch of the second loop\<close>
  "update_added old_hashes current_hashes =
     map fst [item \<leftarrow> current_hashes. current_branch old_hashes item = New_file]"

definition update_modified :: "hash_map \<Rightarrow> hash_map \<Rightarrow> path list" where
  "update_modified old_hashes current_hashes =
     map fst [item \<leftarrow> current_hashes. current_branch old_hashes item = Modified_file]"

definition update_deleted :: "hash_map \<Rightarrow> hash_map \<Rightarrow> path list" where
  "update_deleted old_hashes current_hashes =
     [rel_path \<leftarrow> keys old_hashes. old_branch current_hashes rel_path]"

definition changes_made :: "hash_map \<Rightarrow> hash_map \<Rightarrow> bool" where
  \<comment> \<open>the flag after both loops: set in every branch, never cleared\<close>
  "changes_made old_hashes current_hashes =
     ((\<exists>item \<in> set current_hashes. current_branch old_hashes item \<noteq> No_branch) \<or>
      (\<exists>rel_path \<in> set (keys old_hashes). old_branch current_hashes rel_path))"

section \<open>Strings\<close>

text \<open>
  A Python \<open>str\<close> is modelled as a list of \<open>char\<close>: the model covers the strings
  whose code points are below 256. The operations below are the \<open>str\<close> methods the
  program calls, on that range.
\<close>

definition startswith :: "string \<Rightarrow> string \<Rightarrow> bool" where
  "startswith s p = (take (length p) s = p)"

definition isspace :: "char \<Rightarrow> bool" where
  \<comment> \<open>the whitespace of \<open>str.split\<close>, \<open>str.rstrip\<close> and \<open>int\<close>: tab to carriage return,
      the four separators 28 to 31, space, next line (133) and no-break space (160)\<close>
  "isspace c = (of_char c \<in> {9, 10, 11, 12, 13, 28, 29, 30, 31, 32, 133, 160 :: nat})"

definition lstrip :: "string \<Rightarrow> string" where
  "lstrip s = dropWhile isspace s"

definition rstrip :: "string \<Rightarrow> string" where
  "rstrip s = rev (dropWhile isspace (rev s))"

definition strip :: "string \<Rightarrow> string" where
  "strip s = lstrip (rstrip s)"

fun split_from :: "string \<Rightarrow> string \<Rightarrow> string list" where
  \<comment> \<open>\<open>split_from w s\<close>: the fields of \<open>s\<close>, the first one continuing the field \<open>w\<close> read so far\<close>
  "split_from w [] = (if w = [] then [] else [w])"
| "split_from w (c # cs) =
     (if isspace c then (if w = [] then split_from [] cs else w # split_from [] cs)
      else split_from (w @ [c]) cs)"

definition split :: "string \<Rightarrow> string list" where
  \<comment> \<open>\<open>s.split()\<close>: the maximal runs of characters that are not whitespace\<close>
  "split s = split_from [] s"

fun split_at :: "char \<Rightarrow> string \<Rightarrow> string list" where
  \<comment> \<open>\<open>s.split(sep)\<close> for a separator of one character: empty fields are kept\<close>
  "split_at sep [] = [[]]"
| "split_at sep (c # cs) =
     (if c = sep then [] # split_at sep cs
      else (case split_at sep cs of [] \<Rightarrow> [[c]] | w # ws \<Rightarrow> (c # w) # ws))"

fun join :: "string \<Rightarrow> string list \<Rightarrow> string" where
  \<comment> \<open>\<open>sep.join(xs)\<close>\<close>
  "join sep [] = []"
| "join sep [x] = x"
| "join sep (x # y # ys) = x @ sep @ join sep (y # ys)"

subsection \<open>Integers and their decimal text\<close>

datatype exn = ValueError | IndexError

definition digit_char :: "nat \<Rightarrow> char" where
  "digit_char d = ''0123456789'' ! d"

function str_nat :: "nat \<Rightarrow> string" where
  "str_nat n = (if n < 10 then [digit_char n] else str_nat (n div 10) @ [digit_char (n mod 10)])"
  by pat_completeness auto
termination
  by (relation "measure id") auto

declare str_nat.simps [simp del]

definition int_max_str_digits :: nat where
  \<comment> \<open>\<open>sys.int_info.default_max_str_digits\<close>: the interpreters that limit the conversion
      between \<open>int\<close> and decimal text (3.11 and later, and the security releases of 3.7
      to 3.10) refuse more than this number of digits, unless an option changes it\<close>
  "int_max_str_digits = 4300"

definition str_int :: "int \<Rightarrow> exn + string" where
  \<comment> \<open>\<open>str(i)\<close>, also what \<open>f"{i}"\<close> inserts: \<open>ValueError\<close> for an integer of more digits
      than the limit\<close>
  "str_int i =
     (let digits = str_nat (nat \<bar>i\<bar>)
      in if int_max_str_digits < length digits then Inl ValueError
         else Inr (if i < 0 then CHR ''-'' # digits else digits))"

definition digit_val :: "char \<Rightarrow> nat option" where
  "digit_val c =
     (if of_char c \<in> {48 ..< 58 :: nat} then Some (of_char c - 48) else None)"

fun digits_val :: "nat \<Rightarrow> string \<Rightarrow> nat option" where
  \<comment> \<open>\<open>digits_val acc s\<close>: the digits read so far are worth \<open>acc\<close>; \<open>s\<close> continues them with
      digits, each of which one underscore may precede\<close>
  "digits_val acc [] = Some acc"
| "digits_val acc (c # cs) =
     (if c = CHR ''_'' then
        (case cs of [] \<Rightarrow> None
         | d # ds \<Rightarrow> (case digit_val d of None \<Rightarrow> None
                      | Some v \<Rightarrow> digits_val (10 * acc + v) ds))
      else (case digit_val c of None \<Rightarrow> None
            | Some v \<Rightarrow> digits_val (10 * acc + v) cs))"

definition magnitude :: "string \<Rightarrow> nat option" where
  \<comment> \<open>an unsigned decimal literal: a digit, then digits with single underscores between\<close>
  "magnitude s =
     (case s of [] \<Rightarrow> None
      | c # cs \<Rightarrow> (case digit_val c of None \<Rightarrow> None | Some v \<Rightarrow> digits_val v cs))"

definition digit_count :: "string \<Rightarrow> nat" where
  \<comment> \<open>the digits of a literal, leading zeros included, underscores left out\<close>
  "digit_count s = length [c \<leftarrow> s. digit_val c \<noteq> None]"

definition unsigned :: "string \<Rightarrow> exn + nat" where
  \<comment> \<open>what \<open>int\<close> reads after the sign: \<open>ValueError\<close> for text that is not a literal and
      for a literal of more digits than the limit\<close>
  "unsigned s =
     (case magnitude s of
        None \<Rightarrow> Inl ValueError
      | Some n \<Rightarrow> if int_max_str_digits < digit_count s then Inl ValueError else Inr n)"

definition py_int :: "string \<Rightarrow> exn + int" where
  \<comment> \<open>\<open>int(s)\<close>: surrounding whitespace is dropped, one sign is allowed; anything else
      raises \<open>ValueError\<close>\<close>
  "py_int s =
     (case strip s of
        [] \<Rightarrow> Inl ValueError
      | c # cs \<Rightarrow>
          if c = CHR ''-'' then
            (case unsigned cs of Inl e \<Rightarrow> Inl e | Inr n \<Rightarrow> Inr (- int n))
          else if c = CHR ''+'' then
            (case unsigned cs of Inl e \<Rightarrow> Inl e | Inr n \<Rightarrow> Inr (int n))
          else
            (case unsigned (c # cs) of Inl e \<Rightarrow> Inl e | Inr n \<Rightarrow> Inr (int n)))"

definition item :: "'a list \<Rightarrow> nat \<Rightarrow> exn + 'a" where
  \<comment> \<open>\<open>xs[i]\<close> for an index that is not negative\<close>
  "item xs i = (if i < length xs then Inr (xs ! i) else Inl IndexError)"

section \<open>The diff report: \<open>format_diff_as_markdown\<close>\<close>

record report =
  add :: "string list"
  remove :: "string list"
  old_ln :: int
  new_ln :: int

definition hunk_field :: "string list \<Rightarrow> nat \<Rightarrow> exn + int" where
  \<comment> \<open>\<open>int(parts[k].split(',')[0][1:])\<close>\<close>
  "hunk_field parts k =
     (case item parts k of Inl e \<Rightarrow> Inl e
      | Inr f \<Rightarrow> (case item (split_at CHR '','' f) 0 of Inl e \<Rightarrow> Inl e
                  | Inr w \<Rightarrow> py_int (drop 1 w)))"

definition hunk_start :: "string list \<Rightarrow> exn + int \<times> int" where
  \<comment> \<open>the body of the \<open>try\<close>, lines 153 and 154: the second field is read only when the
      first one was\<close>
  "hunk_start parts =
     (case hunk_field parts 1 of Inl e \<Rightarrow> Inl e
      | Inr a \<Rightarrow> (case hunk_field parts 2 of Inl e \<Rightarrow> Inl e | Inr c \<Rightarrow> Inr (a, c)))"

definition hunk_header :: "report \<Rightarrow> string \<Rightarrow> report" where
  \<comment> \<open>lines 150 to 156; the handler catches both exceptions the body can raise\<close>
  "hunk_header st line =
     (let parts = split line in
      if length parts \<ge> 3 then
        (case hunk_start parts of
           Inr (a, c) \<Rightarrow> st\<lparr>old_ln := a, new_ln := c\<rparr>
         | Inl ValueError \<Rightarrow> st\<lparr>old_ln := 0, new_ln := 0\<rparr>
         | Inl IndexError \<Rightarrow> st\<lparr>old_ln := 0, new_ln := 0\<rparr>)
      else st)"

definition same_but_whitespace :: "string \<Rightarrow> string \<Rightarrow> bool" where
  \<comment> \<open>line 163\<close>
  "same_but_whitespace line next_line = (rstrip (drop 1 line) = rstrip (drop 1 next_line))"

definition skip_pair :: "report \<Rightarrow> report" where
  \<comment> \<open>lines 165 and 166\<close>
  "skip_pair st = st\<lparr>old_ln := old_ln st + 1, new_ln := new_ln st + 1\<rparr>"

definition entry :: "int \<Rightarrow> string \<Rightarrow> exn + string" where
  \<comment> \<open>\<open>f"L{n}: {line[1:].rstrip()}"\<close>, which raises what the conversion of \<open>n\<close> raises\<close>
  "entry n line =
     (case str_int n of
        Inl e \<Rightarrow> Inl e
      | Inr digits \<Rightarrow> Inr (''L'' @ digits @ '': '' @ rstrip (drop 1 line)))"

definition plain_line :: "report \<Rightarrow> string \<Rightarrow> exn + report" where
  \<comment> \<open>lines 170 to 180, which no \<open>try\<close> encloses: \<open>Inl\<close> the exception that leaves the
      function\<close>
  "plain_line st line =
     (if startswith line ''-'' \<and> \<not> startswith line ''---'' then
        (case entry (old_ln st) line of
           Inl e \<Rightarrow> Inl e
         | Inr text \<Rightarrow> Inr (st\<lparr>remove := remove st @ [text], old_ln := old_ln st + 1\<rparr>))
      else if startswith line ''+'' \<and> \<not> startswith line ''+++'' then
        (case entry (new_ln st) line of
           Inl e \<Rightarrow> Inl e
         | Inr text \<Rightarrow> Inr (st\<lparr>add := add st @ [text], new_ln := new_ln st + 1\<rparr>))
      else if \<not> startswith line [CHR 0x5C] then
        Inr (st\<lparr>old_ln := old_ln st + 1, new_ln := new_ln st + 1\<rparr>)
      else Inr st)"

fun scan :: "report \<Rightarrow> string list \<Rightarrow> exn + report" where
  \<comment> \<open>the \<open>while\<close> loop: \<open>scan st ls\<close> runs it on the lines \<open>ls\<close> that are left, from
      index \<open>i\<close> on, with \<open>st\<close> the lists and counters so far; \<open>Inl\<close> the exception that
      ends it, \<open>Inr\<close> the lists and counters at its end\<close>
  "scan st [] = Inr st"
| "scan st [line] =
     (if startswith line ''@@'' then Inr (hunk_header st line) else plain_line st line)"
| "scan st (line # next_line # rest) =
     (if startswith line ''@@'' then scan (hunk_header st line) (next_line # rest)
      else if startswith line ''-'' \<and> startswith next_line ''+'' \<and>
              same_but_whitespace line next_line
      then scan (skip_pair st) rest
      else (case plain_line st line of
              Inl e \<Rightarrow> Inl e
            | Inr st' \<Rightarrow> scan st' (next_line # rest)))"

definition added_heading :: string where
  \<comment> \<open>\<open>"### "\<close>, the heavy plus sign U+2795 as the three bytes the changelog file holds for
      it, \<open>" Added"\<close>\<close>
  "added_heading = ''### '' @ [CHR 0xE2, CHR 0x9E, CHR 0x95] @ '' Added''"

definition removed_heading :: string where
  \<comment> \<open>the same with the heavy minus sign U+2796\<close>
  "removed_heading = ''### '' @ [CHR 0xE2, CHR 0x9E, CHR 0x96] @ '' Removed''"

definition initial_report :: report where
  "initial_report = \<lparr>add = [], remove = [], old_ln = 0, new_ln = 0\<rparr>"

definition sections :: "report \<Rightarrow> string list" where
  \<comment> \<open>lines 183 to 190\<close>
  "sections st =
     (if add st \<noteq> [] then added_heading # add st @ [''''] else []) @
     (if remove st \<noteq> [] then removed_heading # remove st @ [''''] else [])"

definition format_diff_as_markdown :: "string list \<Rightarrow> exn + string" where
  "format_diff_as_markdown diff_lines =
     (case scan initial_report diff_lines of
        Inl e \<Rightarrow> Inl e
      | Inr st \<Rightarrow> Inr (join [CHR 0x0A] (sections st)))"

subsection \<open>Inputs of the report that the properties below name\<close>

definition is_digit :: "char \<Rightarrow> bool" where
  "is_digit c = (c \<in> set ''0123456789'')"

definition unified_hunk_header :: "nat \<Rightarrow> nat \<Rightarrow> nat \<Rightarrow> nat \<Rightarrow> string" where
  \<comment> \<open>the hunk header \<open>@@ -a,b +c,d @@\<close> of a unified diff\<close>
  "unified_hunk_header a b c d =
     ''@@ -'' @ str_nat a @ '','' @ str_nat b @ '' +'' @ str_nat c @ '','' @ str_nat d @ '' @@''"

definition crlf_diff :: "string list" where
  \<comment> \<open>what \<open>difflib.unified_diff\<close> yields, called as on line 271, for the old lines
      \<open>["a\n", "b\n"]\<close> and the new lines \<open>["a\n", "b\r\n"]\<close>\<close>
  "crlf_diff =
     [''--- before'', ''+++ after'', ''@@ -1,2 +1,2 @@'',
      '' a'' @ [CHR 0x0A], ''-b'' @ [CHR 0x0A], ''+b'' @ [CHR 0x0D, CHR 0x0A]]"

definition bounded_by :: "int \<Rightarrow> report \<Rightarrow> bool" where
  \<comment> \<open>both counters are at most \<open>K\<close> in absolute value\<close>
  "bounded_by K st \<longleftrightarrow> \<bar>old_ln st\<bar> \<le> K \<and> \<bar>new_ln st\<bar> \<le> K"

section \<open>Ignore rules: \<open>should_ignore_file\<close>\<close>

text \<open>
  The function turns its argument into a \<open>Path\<close> and uses three things of it: its
  \<open>parts\<close>, its \<open>name\<close> and its method \<open>match\<close>. A path is modelled by the list of
  its parts. \<open>PurePath.match\<close> belongs to the standard library and is a parameter
  of the model: \<open>path_match parts pattern\<close> says whether the path with these parts
  matches the glob pattern.
\<close>

type_synonym parts = "string list"

definition endswith :: "string \<Rightarrow> string \<Rightarrow> bool" where
  "endswith s p = (length p \<le> length s \<and> drop (length s - length p) s = p)"

definition name :: "parts \<Rightarrow> string" where
  \<comment> \<open>\<open>Path.name\<close>: the last part, the empty string for a path without parts\<close>
  "name ps = (if ps = [] then [] else last ps)"

fun should_ignore_file :: "(parts \<Rightarrow> string \<Rightarrow> bool) \<Rightarrow> parts \<Rightarrow> string list \<Rightarrow> bool" where
  "should_ignore_file path_match file_path [] = False"
| "should_ignore_file path_match file_path (pattern # ignore_patterns) =
     (if endswith pattern ''/*'' then
        (let dir_pattern = take (length pattern - 2) pattern in
         if \<exists>part \<in> set file_path. part = dir_pattern then True
         else should_ignore_file path_match file_path ignore_patterns)
      else if CHR ''*'' \<in> set pattern \<or> CHR ''?'' \<in> set pattern then
        (if path_match file_path pattern then True
         else should_ignore_file path_match file_path ignore_patterns)
      else
        (if name file_path = pattern then True
         else should_ignore_file path_match file_path ignore_patterns))"

section \<open>The content hasher: \<open>hash_file\<close>\<close>

subsection \<open>SHA-1, which \<open>hashlib.sha1\<close> computes (FIPS 180-4)\<close>

text \<open>A byte is a \<open>char\<close>; the content of a file is the list of its bytes.\<close>

type_synonym bytes = string
type_synonym w32 = "32 word"

definition byte_of :: "nat \<Rightarrow> char" where
  "byte_of n = char_of n"

definition be64 :: "nat \<Rightarrow> bytes" where
  \<comment> \<open>a 64-bit length, most significant byte first\<close>
  "be64 n = map (\<lambda>i. byte_of ((n div 256 ^ (7 - i)) mod 256)) [0 ..< 8]"

definition pad :: "bytes \<Rightarrow> bytes" where
  "pad msg =
     msg @ [byte_of 128] @ replicate ((119 - length msg mod 64) mod 64) (byte_of 0) @
     be64 ((8 * length msg) mod 2 ^ 64)"

definition word_of_bytes :: "bytes \<Rightarrow> w32" where
  "word_of_bytes bs = foldl (\<lambda>w b. push_bit 8 w + of_nat (of_char b)) 0 bs"

fun words_of :: "nat \<Rightarrow> bytes \<Rightarrow> w32 list" where
  \<comment> \<open>the first \<open>n\<close> big-endian words of a block\<close>
  "words_of 0 bs = []"
| "words_of (Suc n) bs = word_of_bytes (take 4 bs) # words_of n (drop 4 bs)"

fun schedule :: "nat \<Rightarrow> w32 list \<Rightarrow> w32 list" where
  \<comment> \<open>\<open>schedule n ws\<close> appends \<open>n\<close> words, each from the words 3, 8, 14 and 16 places back\<close>
  "schedule 0 ws = ws"
| "schedule (Suc n) ws =
     (let t = length ws in
      schedule n (ws @ [word_rotl 1 ((ws ! (t - 3)) XOR (ws ! (t - 8)) XOR
                                      (ws ! (t - 14)) XOR (ws ! (t - 16)))]))"

definition round_fun :: "nat \<Rightarrow> w32 \<Rightarrow> w32 \<Rightarrow> w32 \<Rightarrow> w32" where
  "round_fun t b c d =
     (if t < 20 then (b AND c) OR (NOT b AND d)
      else if t < 40 then b XOR c XOR d
      else if t < 60 then (b AND c) OR (b AND d) OR (c AND d)
      else b XOR c XOR d)"

definition round_const :: "nat \<Rightarrow> w32" where
  "round_const t =
     (if t < 20 then 0x5A827999 else if t < 40 then 0x6ED9EBA1
      else if t < 60 then 0x8F1BBCDC else 0xCA62C1D6)"

type_synonym sha_state = "w32 \<times> w32 \<times> w32 \<times> w32 \<times> w32"

definition sha_round :: "w32 list \<Rightarrow> sha_state \<Rightarrow> nat \<Rightarrow> sha_state" where
  "sha_round ws s t =
     (case s of (a, b, c, d, e) \<Rightarrow>
        (word_rotl 5 a + round_fun t b c d + e + round_const t + ws ! t,
         a, word_rotl 30 b, c, d))"

definition compress :: "sha_state \<Rightarrow> bytes \<Rightarrow> sha_state" where
  "compress h block =
     (case h of (h0, h1, h2, h3, h4) \<Rightarrow>
        (case foldl (sha_round (schedule 64 (words_of 16 block))) h [0 ..< 80] of
           (a, b, c, d, e) \<Rightarrow> (h0 + a, h1 + b, h2 + c, h3 + d, h4 + e)))"

fun blocks :: "nat \<Rightarrow> bytes \<Rightarrow> bytes list" where
  \<comment> \<open>the first \<open>n\<close> blocks of 64 bytes\<close>
  "blocks 0 bs = []"
| "blocks (Suc n) bs = take 64 bs # blocks n (drop 64 bs)"

definition sha1 :: "bytes \<Rightarrow> sha_state" where
  "sha1 msg =
     foldl compress (0x67452301, 0xEFCDAB89, 0x98BADCFE, 0x10325476, 0xC3D2E1F0)
       (blocks (length (pad msg) div 64) (pad msg))"

definition hex_char :: "nat \<Rightarrow> char" where
  "hex_char d = ''0123456789abcdef'' ! d"

definition hex_word :: "w32 \<Rightarrow> string" where
  "hex_word w = map (\<lambda>i. hex_char ((unat w div 16 ^ (7 - i)) mod 16)) [0 ..< 8]"

definition sha1_hex :: "bytes \<Rightarrow> string" where
  "sha1_hex msg =
     (case sha1 msg of (h0, h1, h2, h3, h4) \<Rightarrow>
        hex_word h0 @ hex_word h1 @ hex_word h2 @ hex_word h3 @ hex_word h4)"

subsection \<open>The hasher object and the file\<close>

text \<open>
  The hash object holds the bytes it was fed: \<open>update\<close> appends a chunk, and
  \<open>hexdigest\<close> is the digest of all of them, as the library documents. A file that
  is opened for reading gives its bytes or raises \<open>OSError\<close>, at \<open>open\<close> or at a
  \<open>read\<close>.
\<close>

datatype work_file = Readable bytes | Unreadable

record hasher =
  fed :: bytes

definition update :: "hasher \<Rightarrow> bytes \<Rightarrow> hasher" where
  "update h chunk = h\<lparr>fed := fed h @ chunk\<rparr>"

definition hexdigest :: "hasher \<Rightarrow> string" where
  "hexdigest h = sha1_hex (fed h)"

function read_chunks :: "hasher \<Rightarrow> bytes \<Rightarrow> hasher" where
  \<comment> \<open>line 84: \<open>f.read(8192)\<close> until it returns \<open>b""\<close>; the second argument is what is left
      of the file\<close>
  "read_chunks h unread =
     (let chunk = take 8192 unread in
      if chunk = [] then h else read_chunks (update h chunk) (drop 8192 unread))"
  by pat_completeness auto
termination
  by (relation "measure (\<lambda>(h, unread). length unread)") auto

declare read_chunks.simps [simp del]

definition basename :: "string \<Rightarrow> string" where
  \<comment> \<open>\<open>os.path.basename\<close>: what follows the last slash\<close>
  "basename p = rev (takeWhile (\<lambda>c. c \<noteq> CHR ''/'') (rev p))"

definition hash_file :: "work_file \<Rightarrow> path \<Rightarrow> digest" where
  \<comment> \<open>\<open>hash_file file_path f\<close>, with \<open>f\<close> the file that \<open>file_path\<close> names\<close>
  "hash_file f file_path =
     (case f of
        Readable content \<Rightarrow> hexdigest (read_chunks \<lparr>fed = []\<rparr> content)
      | Unreadable \<Rightarrow> ''unreadable-'' @ basename file_path)"

section \<open>The version counter\<close>

subsection \<open>Binary floating point\<close>

text \<open>
  A Python \<open>float\<close> is an IEEE 754 double: a rational number with a significand of
  53 bits. Every operation gives the double nearest to the exact result, the one
  with the even significand when two are equally near. A double is modelled by its
  value; the range of the exponent is not modelled, so the model is the arithmetic
  of Python for values of a magnitude between \<open>2\<^sup>-\<^sup>1\<^sup>0\<^sup>2\<^sup>2\<close> and \<open>2\<^sup>1\<^sup>0\<^sup>2\<^sup>4\<close>, and for zero.
\<close>

type_synonym double = rat

fun log2_floor :: "nat \<Rightarrow> nat" where
  "log2_floor n = (if n < 2 then 0 else Suc (log2_floor (n div 2)))"

declare log2_floor.simps [simp del]

definition two_pow :: "int \<Rightarrow> rat" where
  "two_pow e = (if 0 \<le> e then 2 ^ nat e else 1 / 2 ^ nat (- e))"

definition exponent :: "rat \<Rightarrow> int" where
  \<comment> \<open>for \<open>x > 0\<close>: the \<open>e\<close> with \<open>2\<^sup>e \<le> x < 2\<^sup>e\<^sup>+\<^sup>1\<close>\<close>
  "exponent x =
     (case quotient_of x of (p, q) \<Rightarrow>
        let d = int (log2_floor (nat p)) - int (log2_floor (nat q))
        in if two_pow d \<le> x then d else d - 1)"

definition round_half_even :: "rat \<Rightarrow> int" where
  "round_half_even y =
     (let n = \<lfloor>y\<rfloor>; r = y - of_int n
      in if r < 1 / 2 then n else if 1 / 2 < r then n + 1
         else if even n then n else n + 1)"

definition to_double :: "rat \<Rightarrow> double" where
  \<comment> \<open>the double nearest to \<open>x\<close>: a multiple of the unit in the last place \<open>u\<close>\<close>
  "to_double x =
     (if x = 0 then 0
      else let u = two_pow (exponent \<bar>x\<bar> - 52)
           in of_int (round_half_even (x / u)) * u)"

definition float_add :: "double \<Rightarrow> double \<Rightarrow> double" where
  "float_add x y = to_double (x + y)"

definition float_sub :: "double \<Rightarrow> double \<Rightarrow> double" where
  "float_sub x y = to_double (x - y)"

definition tenth :: double where
  \<comment> \<open>the literal \<open>0.1\<close>\<close>
  "tenth = to_double (1 / 10)"

subsection \<open>The text of a version\<close>

text \<open>
  \<open>One_decimal neg k\<close> is the text of \<open>k\<close> tenths with one digit after the point, with
  a minus sign before it when \<open>neg\<close> holds: \<open>One_decimal False 12\<close> is \<open>1.2\<close>. These
  are the texts that \<open>f"{version:.1f}"\<close> produces, and the texts of \<open>version.txt\<close>
  that the model covers.
\<close>

datatype version_text = One_decimal bool nat

definition show_version_text :: "version_text \<Rightarrow> string" where
  "show_version_text v =
     (case v of One_decimal neg k \<Rightarrow>
        (if neg then ''-'' else '''') @ str_nat (k div 10) @ ''.'' @ [digit_char (k mod 10)])"

definition format_1f :: "double \<Rightarrow> version_text" where
  \<comment> \<open>\<open>f"{x:.1f}"\<close>: the exact value of the double, rounded to the nearest tenth, to the
      even one when two are equally near\<close>
  "format_1f x = One_decimal (x < 0) (nat \<bar>round_half_even (10 * x)\<bar>)"

definition float_of_text :: "version_text \<Rightarrow> double" where
  \<comment> \<open>\<open>float(s)\<close>: the double nearest to the decimal number\<close>
  "float_of_text v =
     (case v of One_decimal neg k \<Rightarrow>
        to_double ((if neg then - 1 else 1) * (of_nat k / 10)))"

section \<open>The repository on disk\<close>

text \<open>
  The state is what the program reads and writes under the root directory:
  \<^item> \<open>gitnot_dir\<close>: whether \<open>.gitnot\<close> exists;
  \<^item> \<open>work\<close>: the files that \<open>get_all_text_files(".")\<close> returns, in its order, each path
    once, each with the bytes it holds unless it cannot be read;
  \<^item> \<open>snapshot\<close>: the files under \<open>.gitnot/snapshot\<close>, \<open>None\<close> when the directory is
    missing; \<open>temp_snapshot\<close> the same for the temporary directory of a commit;
  \<^item> \<open>deleted\<close>: the files under \<open>.gitnot/deleted\<close>;
  \<^item> \<open>changelogs\<close>: for a relative path, the text of its changelog;
  \<^item> \<open>hashes_json\<close> and \<open>version_txt\<close>: each file is \<open>Absent\<close>, or \<open>Holds\<close> the value that
    reading it gives, or is \<open>Rejected\<close> with the exception that reading it raises;
  \<^item> \<open>printed\<close>: the messages printed so far.

  What \<open>hashes.json\<close> holds is a JSON object from paths to digests, the only value
  that the program writes there. The exceptions that \<open>json.load\<close> raises on other
  content are: \<open>JSONDecodeError\<close> on text that is not JSON, \<open>UnicodeDecodeError\<close> on
  bytes that are not UTF-8, \<open>RecursionError\<close> on brackets nested deeper than the
  interpreter's stack allows, and a \<open>ValueError\<close> that is no \<open>JSONDecodeError\<close> on an
  integer of more digits than \<open>int_max_str_digits\<close> (\<open>Digits_ValueError\<close> below). A file
  that \<open>json.load\<close> reads without an exception but that is no object from strings to
  strings (a list, a number, an object with other values) is outside the model.
  What \<open>version.txt\<close> holds is a number with one decimal, the only text that the
  program writes there; on text that is no number \<open>float\<close> raises \<open>ValueError\<close>, and on
  bytes that are not UTF-8 the reading raises \<open>UnicodeDecodeError\<close>; other texts that
  \<open>float\<close> accepts are outside the model.

  The input and output errors that the model covers are: a working file that
  cannot be read, a changelog that cannot be opened for writing, and a failure of
  \<open>rmtree\<close> or of \<open>move\<close> when the snapshot is swapped (taken to leave the tree it was
  called on as it was). Every other operation on the disk is taken to succeed.
  In the texts that the program writes, a character beyond code point 255 stands
  as its bytes in UTF-8.

  Among the messages, \<open>Unexpected_error\<close> stands for the two lines that the last
  handler of \<open>update_gitnot\<close> prints (lines 355 and 356), and \<open>Status_error\<close> for the
  line that the handler of \<open>show_status\<close> prints (line 396).
\<close>

datatype ('e, 'a) stored = Absent | Rejected 'e | Holds 'a

datatype json_error =
    JSONDecodeError | UnicodeDecodeError | RecursionError | Digits_ValueError

datatype float_error = Float_ValueError | Float_UnicodeDecodeError

datatype msg =
    Not_initialized | No_changes | Snapshot_missing
  | Version_bumped version_text | Tracked nat | Initialized nat
  | Warn_changelog path | Warn_snapshot | Warn_process path
  | Status_new "path list" | Status_modified "path list" | Status_deleted "path list"
  | Current_version version_text
  | Unexpected_error | Status_error

record env =
  readlines :: "bytes \<Rightarrow> string list"
  unified_diff :: "string list \<Rightarrow> string list \<Rightarrow> string list"
  timestamp :: string
  log_locked :: "path \<Rightarrow> bool"
  rmtree_fails :: bool
  move_fails :: bool

record repo =
  gitnot_dir :: bool
  work :: "(path \<times> work_file) list"
  snapshot :: "(path \<rightharpoonup> bytes) option"
  temp_snapshot :: "(path \<rightharpoonup> bytes) option"
  deleted :: "path \<rightharpoonup> bytes"
  changelogs :: "path \<rightharpoonup> string"
  hashes_json :: "(json_error, hash_map) stored"
  version_txt :: "(float_error, version_text) stored"
  printed :: "msg list"

definition say :: "msg \<Rightarrow> repo \<Rightarrow> repo" where
  "say m r = r\<lparr>printed := printed r @ [m]\<rparr>"

definition load_json :: "(json_error, hash_map) stored \<Rightarrow> json_error + hash_map" where
  \<comment> \<open>\<open>load_json(HASHES_FILE)\<close>: the empty dictionary for a file that is missing, and for
      one on which \<open>json.load\<close> raises one of the two exceptions that line 97 names; any
      other exception of \<open>json.load\<close> leaves the function\<close>
  "load_json f =
     (case f of
        Absent \<Rightarrow> Inr []
      | Rejected JSONDecodeError \<Rightarrow> Inr []
      | Rejected UnicodeDecodeError \<Rightarrow> Inr []
      | Rejected RecursionError \<Rightarrow> Inl RecursionError
      | Rejected Digits_ValueError \<Rightarrow> Inl Digits_ValueError
      | Holds d \<Rightarrow> Inr d)"

definition save_hashes :: "hash_map \<Rightarrow> repo \<Rightarrow> repo" where
  \<comment> \<open>\<open>save_json(HASHES_FILE, data)\<close>\<close>
  "save_hashes d r = r\<lparr>hashes_json := Holds d\<rparr>"

definition dict_set :: "hash_map \<Rightarrow> path \<Rightarrow> digest \<Rightarrow> hash_map" where
  \<comment> \<open>\<open>d[k] = v\<close>: a known key keeps its place, a new one goes last\<close>
  "dict_set d k v =
     (if has_key d k then map (\<lambda>(k', v'). if k' = k then (k', v) else (k', v')) d
      else d @ [(k, v)])"

definition read_version :: "repo \<Rightarrow> double" where
  \<comment> \<open>the handler of line 116 catches both exceptions that the reading can raise\<close>
  "read_version r =
     (case version_txt r of
        Absent \<Rightarrow> 0
      | Rejected Float_ValueError \<Rightarrow> 0
      | Rejected Float_UnicodeDecodeError \<Rightarrow> 0
      | Holds v \<Rightarrow> float_of_text v)"

definition write_version :: "double \<Rightarrow> repo \<Rightarrow> repo" where
  "write_version version r =
     r\<lparr>gitnot_dir := True, version_txt := Holds (format_1f version)\<rparr>"

definition bump_version :: "repo \<Rightarrow> double \<times> repo" where
  "bump_version r =
     (let version = float_add (read_version r) tenth in (version, write_version version r))"

subsection \<open>Changelog entries\<close>

definition heading :: "double \<Rightarrow> string \<Rightarrow> string" where
  \<comment> \<open>\<open>f"\n## v{version:.1f} - {timestamp}\n"\<close>, where the source has the en dash U+2013 for the hyphen\<close>
  "heading version ts =
     [CHR 0x0A] @ ''## v'' @ show_version_text (format_1f version) @ '' '' @
     [CHR 0xE2, CHR 0x80, CHR 0x93] @ '' '' @ ts @ [CHR 0x0A]"

definition page :: string where
  \<comment> \<open>the sign U+1F4C4 that starts three of the markers\<close>
  "page = [CHR 0xF0, CHR 0x9F, CHR 0x93, CHR 0x84]"

definition new_file_marker :: string where
  "new_file_marker = page @ '' New file added.'' @ [CHR 0x0A]"

definition no_diff_marker :: string where
  "no_diff_marker = page @ '' File changed (no readable diff)'' @ [CHR 0x0A]"

definition encoding_marker :: string where
  "encoding_marker = page @ '' File changed (encoding issues, diff skipped)'' @ [CHR 0x0A]"

definition deleted_marker :: string where
  \<comment> \<open>starts with the sign U+1F53B\<close>
  "deleted_marker = [CHR 0xF0, CHR 0x9F, CHR 0x94, CHR 0xBB] @ '' File was deleted.'' @ [CHR 0x0A]"

definition seed_line :: "path \<Rightarrow> string" where
  \<comment> \<open>\<open>f"# {rel_path} - original v0.1\n"\<close>, where the source has the em dash U+2014 for the hyphen\<close>
  "seed_line rel_path =
     ''# '' @ rel_path @ '' '' @ [CHR 0xE2, CHR 0x80, CHR 0x94] @ '' original v0.1'' @ [CHR 0x0A]"

definition append_changelog :: "env \<Rightarrow> path \<Rightarrow> string \<Rightarrow> repo \<Rightarrow> repo" where
  \<comment> \<open>\<open>open(changelog_path, 'a')\<close> and the writes, inside a \<open>try\<close> whose handler prints a
      warning\<close>
  "append_changelog e rel_path text r =
     (if log_locked e rel_path then say (Warn_changelog rel_path) r
      else r\<lparr>changelogs := (changelogs r)(rel_path \<mapsto>
               (case changelogs r rel_path of None \<Rightarrow> text | Some old \<Rightarrow> old @ text))\<rparr>)"

definition modified_entry :: "env \<Rightarrow> bytes \<Rightarrow> bytes \<Rightarrow> exn + string" where
  \<comment> \<open>what lines 279 to 282 write after the heading, for the diff of lines 271 to 273;
      \<open>Inl\<close> the exception that \<open>format_diff_as_markdown\<close> raises\<close>
  "modified_entry e old_content new_content =
     (let diff = unified_diff e (readlines e old_content) (readlines e new_content)
      in if diff \<noteq> [] then
           (case format_diff_as_markdown diff of
              Inl x \<Rightarrow> Inl x
            | Inr text \<Rightarrow> Inr (text @ [CHR 0x0A]))
         else Inr no_diff_marker)"

definition snapshot_file :: "repo \<Rightarrow> path \<Rightarrow> bytes option" where
  "snapshot_file r rel_path = (case snapshot r of None \<Rightarrow> None | Some s \<Rightarrow> s rel_path)"

subsection \<open>\<open>update_gitnot\<close>\<close>

text \<open>
  A step of the first loop gives \<open>Inr\<close> the repository after it, or \<open>Inl\<close> the exception
  that leaves the loop together with the repository as it is at that moment.
\<close>

definition new_file_step :: "env \<Rightarrow> double \<Rightarrow> path \<Rightarrow> repo \<Rightarrow> repo" where
  \<comment> \<open>lines 251 to 259\<close>
  "new_file_step e version rel_path r =
     append_changelog e rel_path (heading version (timestamp e) @ new_file_marker) r"

definition modified_file_step :: "env \<Rightarrow> double \<Rightarrow> path \<Rightarrow> repo \<Rightarrow> exn \<times> repo + repo" where
  \<comment> \<open>lines 263 to 293. A working file that cannot be opened sends the \<open>try\<close> to its
      handler. So does a changelog that cannot be opened, and there the second
      attempt fails as well: a warning. Once the changelog is open the heading is
      written, and an exception of \<open>format_diff_as_markdown\<close>, which the handler does
      not catch, leaves the loop with the heading in the changelog\<close>
  "modified_file_step e version rel_path r =
     (case snapshot_file r rel_path of
        None \<Rightarrow> Inr r
      | Some old_content \<Rightarrow>
          (case map_of (work r) rel_path of
             Some (Readable new_content) \<Rightarrow>
               if log_locked e rel_path then Inr (say (Warn_changelog rel_path) r)
               else
                 (case modified_entry e old_content new_content of
                    Inr text \<Rightarrow>
                      Inr (append_changelog e rel_path (heading version (timestamp e) @ text) r)
                  | Inl x \<Rightarrow>
                      Inl (x, append_changelog e rel_path (heading version (timestamp e)) r))
           | Some Unreadable \<Rightarrow>
               Inr (append_changelog e rel_path
                      (heading version (timestamp e) @ encoding_marker) r)
           | None \<Rightarrow>
               Inr (append_changelog e rel_path
                      (heading version (timestamp e) @ encoding_marker) r)))"

definition current_step ::
  "env \<Rightarrow> hash_map \<Rightarrow> double \<Rightarrow> path \<times> digest \<Rightarrow> repo \<Rightarrow> exn \<times> repo + repo" where
  \<comment> \<open>the body of the loop of line 248\<close>
  "current_step e old_hashes version kv r =
     (case current_branch old_hashes kv of
        New_file \<Rightarrow> Inr (new_file_step e version (fst kv) r)
      | Modified_file \<Rightarrow> modified_file_step e version (fst kv) r
      | No_branch \<Rightarrow> Inr r)"

fun for_each ::
  "('a \<Rightarrow> repo \<Rightarrow> exn \<times> repo + repo) \<Rightarrow> 'a list \<Rightarrow> repo \<Rightarrow> exn \<times> repo + repo" where
  \<comment> \<open>a \<open>for\<close> loop with the body \<open>body\<close> over the items that are left: an exception that
      leaves the body ends the loop\<close>
  "for_each body [] r = Inr r"
| "for_each body (x # xs) r =
     (case body x r of
        Inl raised \<Rightarrow> Inl raised
      | Inr r' \<Rightarrow> for_each body xs r')"

definition move_to_deleted :: "path \<Rightarrow> repo \<Rightarrow> repo" where
  \<comment> \<open>lines 299 to 304\<close>
  "move_to_deleted rel_path r =
     (case snapshot r of
        None \<Rightarrow> r
      | Some s \<Rightarrow>
          (case s rel_path of
             None \<Rightarrow> r
           | Some content \<Rightarrow>
               r\<lparr>snapshot := Some (s(rel_path := None)),
                 deleted := (deleted r)(rel_path \<mapsto> content)\<rparr>))"

definition deleted_file_step :: "env \<Rightarrow> double \<Rightarrow> path \<Rightarrow> repo \<Rightarrow> repo" where
  \<comment> \<open>lines 298 to 315\<close>
  "deleted_file_step e version rel_path r =
     append_changelog e rel_path (heading version (timestamp e) @ deleted_marker)
       (move_to_deleted rel_path r)"

definition deleted_step :: "env \<Rightarrow> hash_map \<Rightarrow> double \<Rightarrow> path \<Rightarrow> repo \<Rightarrow> repo" where
  \<comment> \<open>the body of the loop of line 296\<close>
  "deleted_step e current_hashes version rel_path r =
     (if old_branch current_hashes rel_path then deleted_file_step e version rel_path r
      else r)"

definition listed_step ::
  "env \<Rightarrow> hash_map \<Rightarrow> hash_map \<Rightarrow> double \<Rightarrow> path \<Rightarrow> repo \<Rightarrow> exn \<times> repo + repo" where
  \<comment> \<open>for the comparison with \<open>show_status\<close>, and no part of the program: what the body of
      the first loop does on a path if it goes by the lists of the status query, with
      the new-file branch for a path of \<open>new_files\<close>, the modified-file branch for a path
      of \<open>changed_files\<close> and nothing for any other path\<close>
  "listed_step e old_hashes current_hashes version rel_path r =
     (if rel_path \<in> set (new_files old_hashes current_hashes) then
        Inr (new_file_step e version rel_path r)
      else if rel_path \<in> set (changed_files old_hashes current_hashes) then
        modified_file_step e version rel_path r
      else Inr r)"

fun materialize ::
  "(path \<times> work_file) list \<Rightarrow> (path \<rightharpoonup> bytes) \<Rightarrow> (path \<rightharpoonup> bytes) + (path \<rightharpoonup> bytes)" where
  \<comment> \<open>the loop of line 328 on the temporary directory: \<open>Inr\<close> the directory with every
      file copied, \<open>Inl\<close> the directory as it is when \<open>copy2\<close> raises\<close>
  "materialize [] t = Inr t"
| "materialize ((rel_path, f) # files) t =
     (case f of
        Readable content \<Rightarrow> materialize files (t(rel_path \<mapsto> content))
      | Unreadable \<Rightarrow> Inl t)"

definition snapshot_failed :: "repo \<Rightarrow> repo" where
  \<comment> \<open>the handler, lines 337 to 341\<close>
  "snapshot_failed r =
     (let r' = say Warn_snapshot r
      in if temp_snapshot r' \<noteq> None then r'\<lparr>temp_snapshot := None\<rparr> else r')"

definition replace_snapshot :: "env \<Rightarrow> (path \<times> work_file) list \<Rightarrow> repo \<Rightarrow> repo" where
  \<comment> \<open>lines 325 to 341\<close>
  "replace_snapshot e current_files r =
     (case materialize current_files Map.empty of
        Inl partial \<Rightarrow> snapshot_failed (r\<lparr>temp_snapshot := Some partial\<rparr>)
      | Inr full \<Rightarrow>
          (let r1 = r\<lparr>temp_snapshot := Some full\<rparr>
           in if rmtree_fails e then snapshot_failed r1
              else let r2 = r1\<lparr>snapshot := None\<rparr>
                   in if move_fails e then snapshot_failed r2
                      else r2\<lparr>snapshot := Some full, temp_snapshot := None\<rparr>))"

definition hashes_of :: "(path \<times> work_file) list \<Rightarrow> hash_map" where
  \<comment> \<open>\<open>{str(f): hash_file(f) for f in current_files}\<close>\<close>
  "hashes_of current_files = map (\<lambda>(rel_path, f). (rel_path, hash_file f rel_path)) current_files"

definition update_gitnot :: "env \<Rightarrow> repo \<Rightarrow> repo" where
  \<comment> \<open>an exception that leaves \<open>load_json\<close> or the first loop is neither a
      \<open>PermissionError\<close> nor an \<open>OSError\<close>: the handler of line 354 ends the commit\<close>
  "update_gitnot e r =
     (if \<not> gitnot_dir r then say Not_initialized r
      else
        (case load_json (hashes_json r) of
           Inl raised \<Rightarrow> say Unexpected_error r
         | Inr old_hashes \<Rightarrow>
             let current_files = work r;
                 current_hashes = hashes_of current_files;
                 (version, r1) = bump_version r
             in (case for_each (current_step e old_hashes version) current_hashes r1 of
                   Inl (raised, r2) \<Rightarrow> say Unexpected_error r2
                 | Inr r2 \<Rightarrow>
                     let r3 = fold (deleted_step e current_hashes version) (keys old_hashes) r2
                     in if \<not> changes_made old_hashes current_hashes then
                          say No_changes (write_version (float_sub version tenth) r3)
                        else if snapshot r3 \<noteq> None then
                          say (Tracked (length current_files))
                            (say (Version_bumped (format_1f version))
                              (save_hashes current_hashes
                                (replace_snapshot e current_files r3)))
                        else say Snapshot_missing r3)))"

definition listed_update :: "env \<Rightarrow> repo \<Rightarrow> repo" where
  \<comment> \<open>for the comparison with \<open>show_status\<close>, and no part of the program: the commit that
      goes by the three lists of the status query. Its first loop runs \<open>listed_step\<close>
      over the current paths, its second loop runs the deleted-file branch over
      \<open>deleted_files\<close>, and it takes the commit for empty when the status query reports
      no changes\<close>
  "listed_update e r =
     (if \<not> gitnot_dir r then say Not_initialized r
      else
        (case load_json (hashes_json r) of
           Inl raised \<Rightarrow> say Unexpected_error r
         | Inr old_hashes \<Rightarrow>
             let current_files = work r;
                 current_hashes = hashes_of current_files;
                 (version, r1) = bump_version r
             in (case for_each (listed_step e old_hashes current_hashes version)
                        (keys current_hashes) r1 of
                   Inl (raised, r2) \<Rightarrow> say Unexpected_error r2
                 | Inr r2 \<Rightarrow>
                     let r3 = fold (deleted_file_step e version)
                                (deleted_files old_hashes current_hashes) r2
                     in if status_no_changes old_hashes current_hashes then
                          say No_changes (write_version (float_sub version tenth) r3)
                        else if snapshot r3 \<noteq> None then
                          say (Tracked (length current_files))
                            (say (Version_bumped (format_1f version))
                              (save_hashes current_hashes
                                (replace_snapshot e current_files r3)))
                        else say Snapshot_missing r3)))"

subsection \<open>\<open>init_gitnot\<close>, \<open>show_status\<close> and \<open>show_version\<close>\<close>

definition init_file :: "env \<Rightarrow> path \<times> work_file \<Rightarrow> hash_map \<times> repo \<Rightarrow> hash_map \<times> repo" where
  \<comment> \<open>the body of the loop of line 207: the copy, the hash and the changelog, opened
      with mode \<open>'w'\<close>, are in one \<open>try\<close>\<close>
  "init_file e fl acc =
     (case acc of (hashes, r) \<Rightarrow>
        (case snd fl of
           Unreadable \<Rightarrow> (hashes, say (Warn_process (fst fl)) r)
         | Readable content \<Rightarrow>
             (let r1 = r\<lparr>snapshot := Some ((case snapshot r of None \<Rightarrow> Map.empty | Some s \<Rightarrow> s)
                                           (fst fl \<mapsto> content))\<rparr>;
                  hashes1 = dict_set hashes (fst fl) (hash_file (snd fl) (fst fl))
              in if log_locked e (fst fl) then (hashes1, say (Warn_process (fst fl)) r1)
                 else (hashes1,
                       r1\<lparr>changelogs := (changelogs r1)(fst fl \<mapsto> seed_line (fst fl))\<rparr>))))"

definition init_gitnot :: "env \<Rightarrow> repo \<Rightarrow> repo" where
  \<comment> \<open>\<open>work r\<close> is here what \<open>get_all_text_files\<close> returns once the default configuration
      is written\<close>
  "init_gitnot e r =
     (let r0 = r\<lparr>gitnot_dir := True,
                 snapshot := Some (case snapshot r of None \<Rightarrow> Map.empty | Some s \<Rightarrow> s)\<rparr>;
          (hashes, r1) = fold (init_file e) (work r0) ([], r0)
      in say (Initialized (length hashes)) (write_version tenth (save_hashes hashes r1)))"

definition show_status :: "repo \<Rightarrow> repo" where
  \<comment> \<open>an exception that leaves \<open>load_json\<close> goes to the handler of line 395\<close>
  "show_status r =
     (if \<not> gitnot_dir r then say Not_initialized r
      else
        (case load_json (hashes_json r) of
           Inl raised \<Rightarrow> say Status_error r
         | Inr old_hashes \<Rightarrow>
             let current_hashes = hashes_of (work r)
             in if status_no_changes old_hashes current_hashes then say No_changes r
                else
                  (let r1 = (if new_files old_hashes current_hashes \<noteq> []
                             then say (Status_new (new_files old_hashes current_hashes)) r
                             else r);
                       r2 = (if changed_files old_hashes current_hashes \<noteq> []
                             then say (Status_modified (changed_files old_hashes current_hashes)) r1
                             else r1)
                   in if deleted_files old_hashes current_hashes \<noteq> []
                      then say (Status_deleted (deleted_files old_hashes current_hashes)) r2
                      else r2)))"

definition show_version :: "repo \<Rightarrow> repo" where
  "show_version r = say (Current_version (format_1f (read_version r))) r"

subsection \<open>Repositories that the properties below name\<close>

definition plain_env :: env where
  \<comment> \<open>no fault; the two library functions stand in for \<open>readlines\<close> and \<open>unified_diff\<close> on
      files of one line\<close>
  "plain_env =
     \<lparr>readlines = (\<lambda>content. [content]),
      unified_diff = (\<lambda>old new. if old = new then []
         else [''--- before'', ''+++ after'', ''@@ -1 +1 @@''] @
              map ((#) CHR ''-'') old @ map ((#) CHR ''+'') new),
      timestamp = ''2024-05-01 12:00'',
      log_locked = (\<lambda>rel_path. False), rmtree_fails = False, move_fails = False\<rparr>"

definition tracked_repo :: repo where
  \<comment> \<open>after \<open>gitnot --init\<close> in a directory that holds \<open>a.txt\<close> with the content \<open>hello\<close>\<close>
  "tracked_repo =
     \<lparr>gitnot_dir = True, work = [(''a.txt'', Readable ''hello'')],
      snapshot = Some [''a.txt'' \<mapsto> ''hello''], temp_snapshot = None, deleted = Map.empty,
      changelogs = [''a.txt'' \<mapsto> seed_line ''a.txt''],
      hashes_json = Holds [(''a.txt'', hash_file (Readable ''hello'') ''a.txt'')],
      version_txt = Holds (One_decimal False 1), printed = []\<rparr>"

definition unreadable_repo :: repo where
  \<comment> \<open>the same, once \<open>a.txt\<close> can no longer be read\<close>
  "unreadable_repo = tracked_repo\<lparr>work := [(''a.txt'', Unreadable)]\<rparr>"

definition logged_repo :: repo where
  \<comment> \<open>the same, with a later entry in the changelog of \<open>a.txt\<close>\<close>
  "logged_repo =
     tracked_repo\<lparr>changelogs := [''a.txt'' \<mapsto> seed_line ''a.txt'' @ ''later entries'']\<rparr>"

definition late_repo :: repo where
  \<comment> \<open>the same, at version \<open>1125899906842624.0\<close>, which is \<open>2\<^sup>5\<^sup>0\<close>\<close>
  "late_repo = tracked_repo\<lparr>version_txt := Holds (One_decimal False 11258999068426240)\<rparr>"

subsection \<open>Relations between the repository before and after a step\<close>

text \<open>
  \<open>same_but_logs\<close>: nothing but changelogs and messages differs; \<open>appended\<close>: every
  changelog that was there is still there, with its old text at the start.
\<close>

definition same_but_logs :: "repo \<Rightarrow> repo \<Rightarrow> bool" where
  "same_but_logs r r' \<longleftrightarrow>
     gitnot_dir r' = gitnot_dir r \<and> work r' = work r \<and> snapshot r' = snapshot r \<and>
     temp_snapshot r' = temp_snapshot r \<and> deleted r' = deleted r \<and>
     hashes_json r' = hashes_json r \<and> version_txt r' = version_txt r"

definition appended :: "repo \<Rightarrow> repo \<Rightarrow> bool" where
  "appended r r' \<longleftrightarrow>
     (\<forall>p old. changelogs r p = Some old \<longrightarrow> (\<exists>more. changelogs r' p = Some (old @ more)))"

definition outcome :: "exn \<times> repo + repo \<Rightarrow> repo" where
  \<comment> \<open>the repository that a step or a loop leaves, whether an exception has ended it
      or not\<close>
  "outcome res = (case res of Inl (raised, r) \<Rightarrow> r | Inr r \<Rightarrow> r)"

definition garbled_repo :: repo where
  \<comment> \<open>the same, once \<open>hashes.json\<close> holds text that is not JSON\<close>
  "garbled_repo = tracked_repo\<lparr>hashes_json := Rejected JSONDecodeError\<rparr>"

definition nested_repo :: repo where
  \<comment> \<open>the same, once \<open>hashes.json\<close> holds 100000 opening brackets and nothing else: text
      that is not JSON, on which \<open>json.load\<close> raises \<open>RecursionError\<close>\<close>
  "nested_repo = tracked_repo\<lparr>hashes_json := Rejected RecursionError\<rparr>"

definition emptied_repo :: repo where
  \<comment> \<open>\<open>logged_repo\<close>, once \<open>a.txt\<close> has been deleted\<close>
  "emptied_repo = logged_repo\<lparr>work := []\<rparr>"

definition grown_repo :: repo where
  \<comment> \<open>\<open>tracked_repo\<close>, once the file \<open>b.txt\<close> has been added\<close>
  "grown_repo =
     tracked_repo\<lparr>work := [(''a.txt'', Readable ''hello''), (''b.txt'', Readable ''new'')]\<rparr>"

definition stuck_env :: env where
  \<comment> \<open>\<open>shutil.move\<close> raises when the temporary directory is moved into place\<close>
  "stuck_env = plain_env\<lparr>move_fails := True\<rparr>"

definition locked_env :: env where
  \<comment> \<open>no changelog can be opened for writing\<close>
  "locked_env = plain_env\<lparr>log_locked := (\<lambda>rel_path. True)\<rparr>"

definition unversioned_repo :: repo where
  \<comment> \<open>\<open>tracked_repo\<close>, once \<open>version.txt\<close> is gone\<close>
  "unversioned_repo = tracked_repo\<lparr>version_txt := Absent\<rparr>"

section \<open>Properties of the delta\<close>

lemma has_key_iff: "has_key d k \<longleftrightarrow> k \<in> set (keys d)"
  by (simp add: has_key_def keys_def map_of_eq_None_iff)

lemma current_branch_New:
  "current_branch old (p, h) = New_file \<longleftrightarrow> \<not> has_key old p"
  by (simp add: current_branch_def)

lemma current_branch_Modified:
  "current_branch old (p, h) = Modified_file \<longleftrightarrow>
     has_key old p \<and> map_of old p \<noteq> Some h"
  by (simp add: current_branch_def)

lemma filter_items_keys:
  assumes "\<And>p h. (p, h) \<in> set d \<Longrightarrow> P (p, h) = Q p"
  shows "map fst (filter P d) = filter Q (map fst d)"
  using assms by (induction d) auto

text \<open>
  C2. Whatever the old and the current hash map are, every path that occurs in one
  of them is in exactly one of the four classes: added (in the current map only),
  modified (in both, with different digests), deleted (in the old map only) and
  unchanged (in both, with equal digests). The classes are given by the two maps
  alone.
\<close>

theorem delta_partition:
  fixes old cur :: hash_map
  shows "set (new_files old cur) = {p. p \<in> set (keys cur) \<and> p \<notin> set (keys old)} \<and>
     set (changed_files old cur) =
       {p. p \<in> set (keys cur) \<and> p \<in> set (keys old) \<and> map_of old p \<noteq> map_of cur p} \<and>
     set (deleted_files old cur) = {p. p \<in> set (keys old) \<and> p \<notin> set (keys cur)} \<and>
     set (unchanged_files old cur) =
       {p. p \<in> set (keys cur) \<and> p \<in> set (keys old) \<and> map_of old p = map_of cur p} \<and>
     set (new_files old cur) \<inter> set (changed_files old cur) = {} \<and>
     set (new_files old cur) \<inter> set (deleted_files old cur) = {} \<and>
     set (new_files old cur) \<inter> set (unchanged_files old cur) = {} \<and>
     set (changed_files old cur) \<inter> set (deleted_files old cur) = {} \<and>
     set (changed_files old cur) \<inter> set (unchanged_files old cur) = {} \<and>
     set (deleted_files old cur) \<inter> set (unchanged_files old cur) = {} \<and>
     set (new_files old cur) \<union> set (changed_files old cur) \<union>
       set (deleted_files old cur) \<union> set (unchanged_files old cur) =
       set (keys old) \<union> set (keys cur)"
  by (auto simp: new_files_def changed_files_def deleted_files_def unchanged_files_def
      has_key_iff)

theorem delta_partition_witness:
  "set (new_files [(''a'', ''1''), (''b'', ''2''), (''c'', ''3'')]
                  [(''b'', ''2''), (''c'', ''4''), (''d'', ''5'')]) = {''d''} \<and>
   set (changed_files [(''a'', ''1''), (''b'', ''2''), (''c'', ''3'')]
                  [(''b'', ''2''), (''c'', ''4''), (''d'', ''5'')]) = {''c''} \<and>
   set (deleted_files [(''a'', ''1''), (''b'', ''2''), (''c'', ''3'')]
                  [(''b'', ''2''), (''c'', ''4''), (''d'', ''5'')]) = {''a''} \<and>
   set (unchanged_files [(''a'', ''1''), (''b'', ''2''), (''c'', ''3'')]
                  [(''b'', ''2''), (''c'', ''4''), (''d'', ''5'')]) = {''b''}"
  using delta_partition [of "[(''a'', ''1''), (''b'', ''2''), (''c'', ''3'')]"
      "[(''b'', ''2''), (''c'', ''4''), (''d'', ''5'')]"]
  by (auto simp: keys_def)

lemma for_each_cong:
  assumes "\<And>x r. x \<in> set xs \<Longrightarrow> f x r = g (h x) r"
  shows "for_each f xs r = for_each g (map h xs) r"
  using assms by (induction xs arbitrary: r) (auto split: sum.splits)

lemma fold_filter:
  "fold f (filter P xs) r = fold (\<lambda>x r. if P x then f x r else r) xs r"
  by (induction xs arbitrary: r) auto

lemma current_step_listed:
  assumes "distinct (keys cur)" "kv \<in> set cur"
  shows "current_step e old v kv r = listed_step e old cur v (fst kv) r"
proof -
  obtain p h where kv: "kv = (p, h)" by (cases kv)
  have "map_of cur p = Some h" "p \<in> set (keys cur)"
    using assms by (auto simp: keys_def kv intro: rev_image_eqI)
  then show ?thesis
    by (simp add: current_step_def listed_step_def current_branch_def new_files_def
        changed_files_def kv)
qed

lemma deleted_step_listed:
  assumes "p \<in> set (keys old)"
  shows "deleted_step e cur v p r =
     (if p \<in> set (deleted_files old cur) then deleted_file_step e v p r else r)"
  using assms by (simp add: deleted_step_def old_branch_def deleted_files_def)

lemma current_loop_listed:
  assumes "distinct (keys cur)"
  shows "for_each (current_step e old v) cur r = for_each (listed_step e old cur v) (keys cur) r"
  unfolding keys_def using assms by (intro for_each_cong current_step_listed)

lemma deleted_loop_listed:
  "fold (deleted_step e cur v) (keys old) r =
     fold (deleted_file_step e v) (deleted_files old cur) r"
proof -
  have "fold (deleted_file_step e v) (deleted_files old cur) r =
      fold (\<lambda>p r. if \<not> has_key cur p then deleted_file_step e v p r else r) (keys old) r"
    unfolding deleted_files_def by (rule fold_filter)
  also have "(\<lambda>p r. if \<not> has_key cur p then deleted_file_step e v p r else r) =
      deleted_step e cur v"
    by (intro ext) (simp add: deleted_step_def old_branch_def)
  finally show ?thesis by simp
qed

lemma lists_agree:
  assumes "distinct (keys cur)"
  shows "new_files old cur = update_added old cur"
    and "changed_files old cur = update_modified old cur"
    and "deleted_files old cur = update_deleted old cur"
proof -
  have item: "map_of cur p = Some h" if "(p, h) \<in> set cur" for p h
    using assms that by (simp add: keys_def)
  show "new_files old cur = update_added old cur"
    unfolding new_files_def update_added_def keys_def
    by (rule filter_items_keys [symmetric]) (simp add: current_branch_New)
  show "changed_files old cur = update_modified old cur"
    unfolding changed_files_def update_modified_def keys_def
    by (rule filter_items_keys [symmetric]) (simp add: current_branch_Modified item)
  show "deleted_files old cur = update_deleted old cur"
    by (simp add: deleted_files_def update_deleted_def old_branch_def)
qed

lemma flag_agrees:
  assumes "distinct (keys cur)"
  shows "status_no_changes old cur \<longleftrightarrow> \<not> changes_made old cur"
proof -
  have "(\<exists>item \<in> set cur. current_branch old item \<noteq> No_branch) \<longleftrightarrow>
          update_added old cur \<noteq> [] \<or> update_modified old cur \<noteq> []"
  proof
    assume "\<exists>item \<in> set cur. current_branch old item \<noteq> No_branch"
    then obtain item where i: "item \<in> set cur" "current_branch old item \<noteq> No_branch"
      by blast
    then have "current_branch old item = New_file \<or> current_branch old item = Modified_file"
      by (cases "current_branch old item") simp_all
    with i(1) show "update_added old cur \<noteq> [] \<or> update_modified old cur \<noteq> []"
      by (auto simp: update_added_def update_modified_def filter_empty_conv)
  next
    assume "update_added old cur \<noteq> [] \<or> update_modified old cur \<noteq> []"
    then obtain item where "item \<in> set cur"
      "current_branch old item = New_file \<or> current_branch old item = Modified_file"
      by (auto simp: update_added_def update_modified_def filter_empty_conv)
    then show "\<exists>item \<in> set cur. current_branch old item \<noteq> No_branch"
      by (intro bexI [of _ item]) auto
  qed
  moreover have "(\<exists>p \<in> set (keys old). old_branch cur p) \<longleftrightarrow> update_deleted old cur \<noteq> []"
    by (auto simp: update_deleted_def filter_empty_conv)
  ultimately have "changes_made old cur \<longleftrightarrow>
      update_added old cur \<noteq> [] \<or> update_modified old cur \<noteq> [] \<or> update_deleted old cur \<noteq> []"
    unfolding changes_made_def by blast
  then show ?thesis
    unfolding status_no_changes_def lists_agree [OF assms] by blast
qed

lemma update_listed:
  assumes "distinct (keys (hashes_of (work r)))"
  shows "update_gitnot e r = listed_update e r"
  by (simp add: update_gitnot_def listed_update_def Let_def current_loop_listed [OF assms]
      deleted_loop_listed flag_agrees [OF assms] split: sum.splits prod.splits)

text \<open>
  C3. For every old hash map and every current hash map (a dictionary: each key
  once), the committing update treats a path as the status query classifies it.
  On every item of the current map the body of the first loop of \<open>update_gitnot\<close>
  does what \<open>listed_step\<close> does: it takes its new-file branch when the path is in the
  list of new files of \<open>show_status\<close>, its modified-file branch when the path is in
  the list of modified files, and does nothing otherwise; so the whole loop is the
  loop that goes by the two lists. On every key of the old map the body of the
  second loop takes its deleted-file branch when the path is in the list of deleted
  files of \<open>show_status\<close> and does nothing otherwise; so the whole loop is the
  deleted-file branch run over that list. The three lists of the status query are
  the lists of paths on which the loops take the three branches, in the same order,
  and the status query reports no changes exactly when the update leaves its
  \<open>changes_made\<close> flag unset. Hence, in every repository whose tracked files have
  distinct paths, \<open>update_gitnot\<close> is the commit \<open>listed_update\<close> that goes by the lists
  of the status query.
\<close>

theorem status_agrees_with_update:
  assumes "distinct (keys cur)"
  shows "(\<forall>kv \<in> set cur. current_step e old v kv r = listed_step e old cur v (fst kv) r) \<and>
         for_each (current_step e old v) cur r = for_each (listed_step e old cur v) (keys cur) r \<and>
         (\<forall>p \<in> set (keys old). deleted_step e cur v p r =
            (if p \<in> set (deleted_files old cur) then deleted_file_step e v p r else r)) \<and>
         fold (deleted_step e cur v) (keys old) r =
           fold (deleted_file_step e v) (deleted_files old cur) r \<and>
         new_files old cur = update_added old cur \<and>
         changed_files old cur = update_modified old cur \<and>
         deleted_files old cur = update_deleted old cur \<and>
         (status_no_changes old cur \<longleftrightarrow> \<not> changes_made old cur) \<and>
         (distinct (keys (hashes_of (work q))) \<longrightarrow> update_gitnot e q = listed_update e q)"
proof -
  have s1: "\<forall>kv \<in> set cur. current_step e old v kv r = listed_step e old cur v (fst kv) r"
    using assms by (simp add: current_step_listed)
  have s2: "\<forall>p \<in> set (keys old). deleted_step e cur v p r =
      (if p \<in> set (deleted_files old cur) then deleted_file_step e v p r else r)"
    by (simp add: deleted_step_listed)
  have u: "update_gitnot e q = listed_update e q" if "distinct (keys (hashes_of (work q)))"
    using that by (rule update_listed)
  from s1 current_loop_listed [OF assms, of e old v r] s2 deleted_loop_listed [of e cur v old r]
    lists_agree [OF assms, of old] flag_agrees [OF assms, of old] u
  show ?thesis by blast
qed

theorem status_agrees_with_update_witness:
  "distinct (keys [(''b'', ''2''), (''c'', ''4''), (''d'', ''5'')]) \<and>
   new_files [(''a'', ''1''), (''b'', ''2''), (''c'', ''3'')]
             [(''b'', ''2''), (''c'', ''4''), (''d'', ''5'')] = [''d''] \<and>
   changed_files [(''a'', ''1''), (''b'', ''2''), (''c'', ''3'')]
             [(''b'', ''2''), (''c'', ''4''), (''d'', ''5'')] = [''c''] \<and>
   deleted_files [(''a'', ''1''), (''b'', ''2''), (''c'', ''3'')]
             [(''b'', ''2''), (''c'', ''4''), (''d'', ''5'')] = [''a''] \<and>
   current_step plain_env [(''a'', ''1''), (''b'', ''2''), (''c'', ''3'')] tenth (''d'', ''5'')
       tracked_repo =
     Inr (tracked_repo\<lparr>changelogs :=
            [''a.txt'' \<mapsto> seed_line ''a.txt'',
             ''d'' \<mapsto> heading tenth ''2024-05-01 12:00'' @ new_file_marker]\<rparr>) \<and>
   current_step plain_env [(''a'', ''1''), (''b'', ''2''), (''c'', ''3'')] tenth (''b'', ''2'')
       tracked_repo = Inr tracked_repo \<and>
   deleted_step plain_env [(''b'', ''2''), (''c'', ''4''), (''d'', ''5'')] tenth ''a''
       tracked_repo =
     tracked_repo\<lparr>changelogs :=
        [''a.txt'' \<mapsto> seed_line ''a.txt'',
         ''a'' \<mapsto> heading tenth ''2024-05-01 12:00'' @ deleted_marker]\<rparr> \<and>
   update_added [(''a'', ''1''), (''b'', ''2''), (''c'', ''3'')]
                [(''b'', ''2''), (''c'', ''4''), (''d'', ''5'')] = [''d''] \<and>
   update_modified [(''a'', ''1''), (''b'', ''2''), (''c'', ''3'')]
                [(''b'', ''2''), (''c'', ''4''), (''d'', ''5'')] = [''c''] \<and>
   update_deleted [(''a'', ''1''), (''b'', ''2''), (''c'', ''3'')]
                [(''b'', ''2''), (''c'', ''4''), (''d'', ''5'')] = [''a''] \<and>
   changes_made [(''a'', ''1''), (''b'', ''2''), (''c'', ''3'')]
                [(''b'', ''2''), (''c'', ''4''), (''d'', ''5'')] \<and>
   distinct (keys (hashes_of (work grown_repo))) \<and>
   printed (show_status grown_repo) = [Status_new [''b.txt'']] \<and>
   update_gitnot plain_env grown_repo = listed_update plain_env grown_repo \<and>
   changelogs (update_gitnot plain_env grown_repo) =
     [''a.txt'' \<mapsto> seed_line ''a.txt'',
      ''b.txt'' \<mapsto> heading (float_add (float_of_text (One_decimal False 1)) tenth)
                    ''2024-05-01 12:00'' @ new_file_marker]"
proof -
  let ?old = "[(''a'', ''1''), (''b'', ''2''), (''c'', ''3'')]"
  let ?cur = "[(''b'', ''2''), (''c'', ''4''), (''d'', ''5'')]"
  have h: "distinct (keys ?cur)"
    by (simp add: keys_def)
  have n: "new_files ?old ?cur = [''d'']"
    by (simp add: new_files_def keys_def has_key_def)
  have m: "changed_files ?old ?cur = [''c'']"
    by (simp add: changed_files_def keys_def has_key_def)
  have d: "deleted_files ?old ?cur = [''a'']"
    by (simp add: deleted_files_def keys_def has_key_def)
  have hq: "distinct (keys (hashes_of (work grown_repo)))"
    by (simp add: grown_repo_def hashes_of_def keys_def)
  note t = status_agrees_with_update [OF h, of plain_env ?old tenth tracked_repo grown_repo]
  from t have "\<forall>kv \<in> set ?cur.
      current_step plain_env ?old tenth kv tracked_repo =
        listed_step plain_env ?old ?cur tenth (fst kv) tracked_repo"
    by (rule conjunct1)
  then have "current_step plain_env ?old tenth (''d'', ''5'') tracked_repo =
        listed_step plain_env ?old ?cur tenth ''d'' tracked_repo"
    and "current_step plain_env ?old tenth (''b'', ''2'') tracked_repo =
        listed_step plain_env ?old ?cur tenth ''b'' tracked_repo"
    by simp_all
  then have s1: "current_step plain_env ?old tenth (''d'', ''5'') tracked_repo =
     Inr (tracked_repo\<lparr>changelogs :=
            [''a.txt'' \<mapsto> seed_line ''a.txt'',
             ''d'' \<mapsto> heading tenth ''2024-05-01 12:00'' @ new_file_marker]\<rparr>)"
    and s2: "current_step plain_env ?old tenth (''b'', ''2'') tracked_repo = Inr tracked_repo"
    unfolding listed_step_def n m
    by (simp_all add: new_file_step_def append_changelog_def plain_env_def tracked_repo_def)
  from t have "\<forall>p \<in> set (keys ?old). deleted_step plain_env ?cur tenth p tracked_repo =
      (if p \<in> set (deleted_files ?old ?cur) then deleted_file_step plain_env tenth p tracked_repo
       else tracked_repo)"
    by blast
  then have "deleted_step plain_env ?cur tenth ''a'' tracked_repo =
      (if ''a'' \<in> set (deleted_files ?old ?cur) then deleted_file_step plain_env tenth ''a'' tracked_repo
       else tracked_repo)"
    by (simp add: keys_def)
  then have s3: "deleted_step plain_env ?cur tenth ''a'' tracked_repo =
     tracked_repo\<lparr>changelogs :=
        [''a.txt'' \<mapsto> seed_line ''a.txt'',
         ''a'' \<mapsto> heading tenth ''2024-05-01 12:00'' @ deleted_marker]\<rparr>"
    unfolding d
    by (simp add: deleted_file_step_def move_to_deleted_def append_changelog_def plain_env_def
        tracked_repo_def)
  from t have e1: "new_files ?old ?cur = update_added ?old ?cur"
    and e2: "changed_files ?old ?cur = update_modified ?old ?cur"
    and e3: "deleted_files ?old ?cur = update_deleted ?old ?cur"
    and e4: "status_no_changes ?old ?cur \<longleftrightarrow> \<not> changes_made ?old ?cur"
    by blast+
  have u: "update_added ?old ?cur = [''d'']" "update_modified ?old ?cur = [''c'']"
    "update_deleted ?old ?cur = [''a'']"
    by (simp_all only: e1 [symmetric] e2 [symmetric] e3 [symmetric] n m d)
  have "\<not> status_no_changes ?old ?cur"
    by (simp add: status_no_changes_def n)
  with e4 have c: "changes_made ?old ?cur" by blast
  have st: "printed (show_status grown_repo) = [Status_new [''b.txt'']]"
    by (simp add: show_status_def grown_repo_def tracked_repo_def load_json_def hashes_of_def
        status_no_changes_def new_files_def changed_files_def deleted_files_def keys_def
        has_key_def say_def Let_def)
  from t hq have up: "update_gitnot plain_env grown_repo = listed_update plain_env grown_repo"
    by blast
  have "changelogs (listed_update plain_env grown_repo) =
     [''a.txt'' \<mapsto> seed_line ''a.txt'',
      ''b.txt'' \<mapsto> heading (float_add (float_of_text (One_decimal False 1)) tenth)
                    ''2024-05-01 12:00'' @ new_file_marker]"
    by (simp add: listed_update_def grown_repo_def tracked_repo_def load_json_def hashes_of_def
        status_no_changes_def new_files_def changed_files_def deleted_files_def keys_def
        has_key_def say_def Let_def bump_version_def read_version_def write_version_def
        listed_step_def new_file_step_def append_changelog_def plain_env_def
        replace_snapshot_def save_hashes_def)
  with up have lg: "changelogs (update_gitnot plain_env grown_repo) =
     [''a.txt'' \<mapsto> seed_line ''a.txt'',
      ''b.txt'' \<mapsto> heading (float_add (float_of_text (One_decimal False 1)) tenth)
                    ''2024-05-01 12:00'' @ new_file_marker]"
    by simp
  from h n m d s1 s2 s3 u c hq st up lg show ?thesis by blast
qed

section \<open>Properties of the string operations\<close>

lemma digit_char_cases:
  assumes "(d::nat) < 10"
  obtains "d = 0" | "d = 1" | "d = 2" | "d = 3" | "d = 4" | "d = 5" | "d = 6" | "d = 7" | "d = 8" | "d = 9"
  using assms by atomize_elim presburger

lemma digit_char_is_digit: "d < 10 \<Longrightarrow> is_digit (digit_char d)"
  by (erule digit_char_cases) (simp_all add: digit_char_def is_digit_def)

lemma digit_val_digit_char: "d < 10 \<Longrightarrow> digit_val (digit_char d) = Some d"
  by (erule digit_char_cases) (simp_all add: digit_char_def digit_val_def)

lemma is_digit_facts:
  assumes "is_digit c"
  shows "\<not> isspace c" "c \<noteq> CHR '',''" "c \<noteq> CHR ''_''" "c \<noteq> CHR ''-''" "c \<noteq> CHR ''+''"
    "digit_val c \<noteq> None"
  using assms by (auto simp: is_digit_def isspace_def digit_val_def)

lemma str_nat_digits: "\<forall>c \<in> set (str_nat n). is_digit c"
  by (induction n rule: str_nat.induct) (subst str_nat.simps, auto simp: digit_char_is_digit)

lemma str_nat_nonempty: "str_nat n \<noteq> []"
  by (subst str_nat.simps) simp

lemma digits_val_snoc:
  assumes "\<forall>c \<in> set s. is_digit c" "d < 10"
  shows "digits_val acc (s @ [digit_char d]) = map_option (\<lambda>v. 10 * v + d) (digits_val acc s)"
  using assms
proof (induction s arbitrary: acc)
  case Nil
  then show ?case by (simp add: digit_val_digit_char is_digit_facts digit_char_is_digit)
next
  case (Cons c s)
  then show ?case by (auto simp: is_digit_facts split: option.splits)
qed

lemma magnitude_str_nat: "magnitude (str_nat n) = Some n"
proof (induction n rule: str_nat.induct)
  case (1 n)
  show ?case
  proof (cases "n < 10")
    case True
    then show ?thesis by (subst str_nat.simps) (simp add: magnitude_def digit_val_digit_char)
  next
    case False
    obtain c cs where s: "str_nat (n div 10) = c # cs"
      using str_nat_nonempty [of "n div 10"] by (cases "str_nat (n div 10)") auto
    have dig: "\<forall>x \<in> set cs. is_digit x" "is_digit c"
      using str_nat_digits [of "n div 10"] s by auto
    from 1 False have ih: "magnitude (c # cs) = Some (n div 10)" by (simp add: s)
    obtain v where v: "digit_val c = Some v" using dig(2) is_digit_facts(6) by blast
    with ih have "digits_val v cs = Some (n div 10)" by (simp add: magnitude_def)
    then have "magnitude (c # cs @ [digit_char (n mod 10)]) = Some (10 * (n div 10) + n mod 10)"
      by (simp add: magnitude_def v digits_val_snoc dig)
    then show ?thesis using False by (subst str_nat.simps) (simp add: s)
  qed
qed

lemma dropWhile_none: "\<forall>c \<in> set s. \<not> P c \<Longrightarrow> s \<noteq> [] \<Longrightarrow> dropWhile P s = s"
  by (cases s) auto

lemma strip_no_space: "\<forall>c \<in> set s. \<not> isspace c \<Longrightarrow> strip s = s"
  by (cases "s = []") (simp_all add: strip_def lstrip_def rstrip_def dropWhile_none)

lemma length_str_nat_le: "0 < k \<Longrightarrow> length (str_nat n) \<le> k \<longleftrightarrow> n < 10 ^ k"
proof (induction n arbitrary: k rule: str_nat.induct)
  case (1 n)
  show ?case
  proof (cases "n < 10")
    case True
    have "(10::nat) ^ 1 \<le> 10 ^ k"
      using 1(2) by (intro power_increasing) simp_all
    with True have "n < 10 ^ k" by simp
    with True 1(2) show ?thesis by (subst str_nat.simps) simp
  next
    case False
    show ?thesis
    proof (cases "k = 1")
      case True
      with False str_nat_nonempty [of "n div 10"] show ?thesis
        by (subst str_nat.simps) (cases "str_nat (n div 10)"; simp)
    next
      case k: False
      with 1(2) obtain j where j: "k = Suc j" "0 < j" by (cases k) auto
      have "length (str_nat (n div 10)) \<le> j \<longleftrightarrow> n div 10 < 10 ^ j"
        using False j(2) by (rule 1(1))
      also have "\<dots> \<longleftrightarrow> n < 10 ^ k"
        by (simp add: j(1) div_less_iff_less_mult mult.commute)
      finally show ?thesis using False by (subst str_nat.simps) (simp add: j(1))
    qed
  qed
qed

lemma digit_count_str_nat: "digit_count (str_nat n) = length (str_nat n)"
proof -
  have "filter (\<lambda>c. digit_val c \<noteq> None) (str_nat n) = str_nat n"
    using str_nat_digits [of n] is_digit_facts(6) by (intro filter_True) blast
  then show ?thesis by (simp add: digit_count_def)
qed

lemma unsigned_str_nat:
  "unsigned (str_nat n) =
     (if int_max_str_digits < length (str_nat n) then Inl ValueError else Inr n)"
  by (simp add: unsigned_def magnitude_str_nat digit_count_str_nat)

lemma py_int_str_nat:
  "py_int (str_nat n) =
     (if int_max_str_digits < length (str_nat n) then Inl ValueError else Inr (int n))"
proof -
  obtain c cs where s: "str_nat n = c # cs"
    using str_nat_nonempty [of n] by (cases "str_nat n") auto
  have "is_digit c" using str_nat_digits [of n] s by auto
  then have c: "c \<noteq> CHR ''-''" "c \<noteq> CHR ''+''" by (simp_all add: is_digit_facts)
  have "strip (str_nat n) = str_nat n"
    using str_nat_digits [of n] by (intro strip_no_space) (auto simp: is_digit_facts)
  then show ?thesis
    using unsigned_str_nat [of n] c by (simp add: py_int_def s)
qed

lemma split_from_word:
  "\<forall>c \<in> set u. \<not> isspace c \<Longrightarrow> split_from w (u @ rest) = split_from (w @ u) rest"
  by (induction u arbitrary: w) auto

lemma split_at_first:
  "sep \<notin> set u \<Longrightarrow> item (split_at sep (u @ sep # v)) 0 = Inr u"
  by (induction u) (auto simp: item_def split: list.splits)

lemma split_at_nonempty: "split_at sep s \<noteq> []"
  by (induction s) (auto split: list.splits)

lemma split_from_field:
  assumes "\<forall>c \<in> set u. \<not> isspace c" "u \<noteq> []" "isspace sp"
  shows "split_from [] (u @ sp # rest) = u # split_from [] rest"
  using assms by (simp add: split_from_word)

lemma split_from_last:
  assumes "\<forall>c \<in> set u. \<not> isspace c" "u \<noteq> []"
  shows "split_from [] u = [u]"
  using assms split_from_word [of u "[]" "[]"] by simp

lemma split_unified_hunk_header:
  "split (unified_hunk_header a b c d) =
     [''@@'', ''-'' @ str_nat a @ '','' @ str_nat b, ''+'' @ str_nat c @ '','' @ str_nat d, ''@@'']"
proof -
  let ?f1 = "''-'' @ str_nat a @ '','' @ str_nat b"
  let ?f2 = "''+'' @ str_nat c @ '','' @ str_nat d"
  have ns: "\<forall>x \<in> set (str_nat n). \<not> isspace x" for n
    using str_nat_digits [of n] is_digit_facts(1) by blast
  have sp: "isspace CHR '' ''" and at: "\<forall>x \<in> set ''@@''. \<not> isspace x"
    by (simp_all add: isspace_def)
  have f1: "\<forall>x \<in> set ?f1. \<not> isspace x"
    using ns by (auto simp: isspace_def)
  have f2: "\<forall>x \<in> set ?f2. \<not> isspace x"
    using ns by (auto simp: isspace_def)
  have e0: "split (unified_hunk_header a b c d) =
      split_from [] (''@@'' @ CHR '' '' # (?f1 @ CHR '' '' # (?f2 @ CHR '' '' # ''@@'')))"
    by (simp add: split_def unified_hunk_header_def)
  have e1: "split_from [] (''@@'' @ CHR '' '' # r) = ''@@'' # split_from [] r" for r
    by (rule split_from_field [OF at _ sp]) simp
  have e2: "split_from [] (?f1 @ CHR '' '' # r) = ?f1 # split_from [] r" for r
    by (rule split_from_field [OF f1 _ sp]) simp
  have e3: "split_from [] (?f2 @ CHR '' '' # r) = ?f2 # split_from [] r" for r
    by (rule split_from_field [OF f2 _ sp]) simp
  have e4: "split_from [] ''@@'' = [''@@'']"
    by (rule split_from_last [OF at]) simp
  show ?thesis by (simp only: e0 e1 e2 e3 e4)
qed

lemma hunk_field_signed:
  assumes "sg \<noteq> CHR '',''" "item parts k = Inr (sg # str_nat n @ '','' @ rest)"
  shows "hunk_field parts k =
     (if int_max_str_digits < length (str_nat n) then Inl ValueError else Inr (int n))"
proof -
  have "CHR '','' \<notin> set (str_nat n)"
    using str_nat_digits [of n] is_digit_facts(2) by blast
  then have "CHR '','' \<notin> set (sg # str_nat n)"
    using assms(1) by auto
  then have "item (split_at CHR '','' ((sg # str_nat n) @ CHR '','' # rest)) 0 = Inr (sg # str_nat n)"
    by (rule split_at_first)
  then show ?thesis
    by (simp add: hunk_field_def assms(2) py_int_str_nat)
qed

lemma hunk_start_unified:
  "hunk_start (split (unified_hunk_header a b c d)) =
     (if int_max_str_digits < length (str_nat a) \<or> int_max_str_digits < length (str_nat c)
      then Inl ValueError else Inr (int a, int c))"
proof -
  let ?parts = "split (unified_hunk_header a b c d)"
  have "hunk_field ?parts 1 =
      (if int_max_str_digits < length (str_nat a) then Inl ValueError else Inr (int a))"
    by (rule hunk_field_signed [where sg = "CHR ''-''" and rest = "str_nat b"])
       (simp_all add: split_unified_hunk_header item_def)
  moreover have "hunk_field ?parts 2 =
      (if int_max_str_digits < length (str_nat c) then Inl ValueError else Inr (int c))"
    by (rule hunk_field_signed [where sg = "CHR ''+''" and rest = "str_nat d"])
       (simp_all add: split_unified_hunk_header item_def)
  ultimately show ?thesis by (simp add: hunk_start_def)
qed

lemma scan_header:
  "startswith line ''@@'' \<Longrightarrow> scan st (line # rest) = scan (hunk_header st line) rest"
  by (cases rest) simp_all

lemma scan_prefix:
  "\<not> startswith l ''+'' \<Longrightarrow>
     scan st (pre @ l # rest) =
       (case scan st pre of Inl e \<Rightarrow> Inl e | Inr st' \<Rightarrow> scan st' (l # rest))"
proof (induction st pre rule: scan.induct)
  case (1 st)
  then show ?case by simp
next
  case (2 st line)
  then show ?case by (simp add: scan_header split: sum.splits)
next
  case (3 st line next_line rest')
  then show ?case by (simp split: sum.splits)
qed

lemma int_max_str_digits_pos: "0 < int_max_str_digits"
  by (simp add: int_max_str_digits_def)

lemma str_int_small:
  "\<bar>i\<bar> < 10 ^ int_max_str_digits \<Longrightarrow> \<exists>digits. str_int i = Inr digits"
proof -
  assume "\<bar>i\<bar> < 10 ^ int_max_str_digits"
  then have "nat \<bar>i\<bar> < 10 ^ int_max_str_digits"
    by (simp add: nat_less_iff)
  then have "length (str_nat (nat \<bar>i\<bar>)) \<le> int_max_str_digits"
    using length_str_nat_le [OF int_max_str_digits_pos] by blast
  then show ?thesis by (simp add: str_int_def Let_def)
qed

lemma str_int_big:
  "10 ^ int_max_str_digits \<le> \<bar>i\<bar> \<Longrightarrow> str_int i = Inl ValueError"
proof -
  assume "10 ^ int_max_str_digits \<le> \<bar>i\<bar>"
  then have "\<not> nat \<bar>i\<bar> < 10 ^ int_max_str_digits"
    by (simp add: nat_less_iff)
  then have "\<not> length (str_nat (nat \<bar>i\<bar>)) \<le> int_max_str_digits"
    using length_str_nat_le [OF int_max_str_digits_pos] by blast
  then show ?thesis by (simp add: str_int_def Let_def)
qed

section \<open>Properties of the diff report\<close>

text \<open>
  C4. Wherever a diff holds a line that starts with \<open>-\<close>, directly followed by a line
  that starts with \<open>+\<close> and is equal to it once the first character and trailing
  whitespace are dropped, the loop reaches the first of the two with the lists and
  counters that the lines before have produced, and goes on after the second with
  the same two lists and both counters one higher: the pair adds no entry and raises
  nothing. (When the lines before have raised an exception, the loop has ended with
  it and does not reach the pair.) For the unified diff of the old lines
  \<open>["a\n", "b\n"]\<close> and the new lines \<open>["a\n", "b\r\n"]\<close> the loop ends with an empty Added
  and an empty Removed list, and the report is the empty string.
\<close>

theorem whitespace_pair_suppressed:
  assumes "startswith removed ''-''" and "startswith added ''+''"
    and "rstrip (drop 1 removed) = rstrip (drop 1 added)"
  shows "scan st (pre @ removed # added # post) =
           (case scan st pre of
              Inl e \<Rightarrow> Inl e
            | Inr st' \<Rightarrow> scan (st'\<lparr>old_ln := old_ln st' + 1, new_ln := new_ln st' + 1\<rparr>) post) \<and>
         scan initial_report crlf_diff = Inr \<lparr>add = [], remove = [], old_ln = 3, new_ln = 3\<rparr> \<and>
         format_diff_as_markdown crlf_diff = Inr []"
proof -
  have "\<not> startswith removed ''+''" "\<not> startswith removed ''@@''"
    using assms(1) by (cases removed; simp add: startswith_def)+
  then have "scan st (pre @ removed # added # post) =
      (case scan st pre of Inl e \<Rightarrow> Inl e | Inr st' \<Rightarrow> scan (skip_pair st') post)"
    using assms by (simp add: scan_prefix same_but_whitespace_def split: sum.splits)
  moreover have "scan initial_report crlf_diff =
      Inr \<lparr>add = [], remove = [], old_ln = 3, new_ln = 3\<rparr>"
    by code_simp
  ultimately show ?thesis
    by (simp add: skip_pair_def format_diff_as_markdown_def sections_def split: sum.splits)
qed

theorem whitespace_pair_suppressed_witness:
  "startswith (''-b'' @ [CHR 0x0A]) ''-'' \<and> startswith (''+b'' @ [CHR 0x0D, CHR 0x0A]) ''+'' \<and>
   rstrip (drop 1 (''-b'' @ [CHR 0x0A])) = rstrip (drop 1 (''+b'' @ [CHR 0x0D, CHR 0x0A])) \<and>
   scan initial_report [''@@ -4,2 +4,2 @@'', ''-x''] =
     Inr \<lparr>add = [], remove = [''L4: x''], old_ln = 5, new_ln = 4\<rparr> \<and>
   scan initial_report
     ([''@@ -4,2 +4,2 @@'', ''-x''] @ (''-b'' @ [CHR 0x0A]) # (''+b'' @ [CHR 0x0D, CHR 0x0A]) # [''+y'']) =
     Inr \<lparr>add = [''L5: y''], remove = [''L4: x''], old_ln = 6, new_ln = 6\<rparr>"
proof -
  have h1: "startswith (''-b'' @ [CHR 0x0A]) ''-''"
    and h2: "startswith (''+b'' @ [CHR 0x0D, CHR 0x0A]) ''+''"
    by (simp_all add: startswith_def)
  have h3: "rstrip (drop 1 (''-b'' @ [CHR 0x0A])) = rstrip (drop 1 (''+b'' @ [CHR 0x0D, CHR 0x0A]))"
    by (simp add: rstrip_def isspace_def)
  have pre: "scan initial_report [''@@ -4,2 +4,2 @@'', ''-x''] =
      Inr \<lparr>add = [], remove = [''L4: x''], old_ln = 5, new_ln = 4\<rparr>"
    by code_simp
  have post: "scan \<lparr>add = [], remove = [''L4: x''], old_ln = 6, new_ln = 5\<rparr> [''+y''] =
      Inr \<lparr>add = [''L5: y''], remove = [''L4: x''], old_ln = 6, new_ln = 6\<rparr>"
    by code_simp
  have "scan initial_report
      ([''@@ -4,2 +4,2 @@'', ''-x''] @ (''-b'' @ [CHR 0x0A]) # (''+b'' @ [CHR 0x0D, CHR 0x0A]) # [''+y'']) =
    (case scan initial_report [''@@ -4,2 +4,2 @@'', ''-x''] of
       Inl e \<Rightarrow> Inl e
     | Inr st' \<Rightarrow> scan (st'\<lparr>old_ln := old_ln st' + 1, new_ln := new_ln st' + 1\<rparr>) [''+y''])"
    using whitespace_pair_suppressed [OF h1 h2 h3, of initial_report
        "[''@@ -4,2 +4,2 @@'', ''-x'']" "[''+y'']"]
    by (rule conjunct1)
  then have "scan initial_report
      ([''@@ -4,2 +4,2 @@'', ''-x''] @ (''-b'' @ [CHR 0x0A]) # (''+b'' @ [CHR 0x0D, CHR 0x0A]) # [''+y'']) =
      Inr \<lparr>add = [''L5: y''], remove = [''L4: x''], old_ln = 6, new_ln = 6\<rparr>"
    unfolding pre by (simp add: post del: scan.simps)
  with h1 h2 h3 pre show ?thesis by blast
qed

text \<open>
  C8, as the claim states it, fails: a line that starts with \<open>@@\<close> and has fewer than
  three fields leaves the counters as they are. After the header \<open>@@ -5,1 +7,1 @@\<close>
  the bare line \<open>@@\<close> does not reset them to zero.
\<close>

theorem short_hunk_header_counterexample:
  "startswith ''@@'' ''@@'' \<and>
   scan initial_report [''@@ -5,1 +7,1 @@'', ''@@''] =
     Inr \<lparr>add = [], remove = [], old_ln = 5, new_ln = 7\<rparr> \<and>
   scan initial_report [''@@ -5,1 +7,1 @@'', ''@@'', ''-y''] =
     Inr \<lparr>add = [], remove = [''L5: y''], old_ln = 6, new_ln = 7\<rparr>"
  by code_simp

lemma py_int_not_IndexError: "py_int s \<noteq> Inl IndexError"
  by (simp add: py_int_def unsigned_def split: list.splits option.splits sum.splits)

lemma hunk_field_not_IndexError:
  "k < length parts \<Longrightarrow> hunk_field parts k \<noteq> Inl IndexError"
  using split_at_nonempty [of "CHR '',''" "parts ! k"]
  by (simp add: hunk_field_def item_def py_int_not_IndexError)

lemma hunk_start_not_IndexError:
  "3 \<le> length parts \<Longrightarrow> hunk_start parts \<noteq> Inl IndexError"
  using hunk_field_not_IndexError [of 1 parts] hunk_field_not_IndexError [of 2 parts]
  by (auto simp: hunk_start_def split: sum.splits)

subsection \<open>The exceptions of the loop\<close>

lemma str_int_ValueError: "str_int i = Inl e \<Longrightarrow> e = ValueError"
  by (simp add: str_int_def Let_def split: if_splits)

lemma plain_line_ValueError: "plain_line st line = Inl e \<Longrightarrow> e = ValueError"
  by (auto simp: plain_line_def entry_def split: if_splits sum.splits dest: str_int_ValueError)

lemma scan_ValueError: "scan st ls = Inl e \<Longrightarrow> e = ValueError"
  by (induction st ls rule: scan.induct)
     (auto split: if_splits sum.splits dest: plain_line_ValueError)

lemma bounded_by_mono: "bounded_by K st \<Longrightarrow> K \<le> K' \<Longrightarrow> bounded_by K' st"
  by (simp add: bounded_by_def)

lemma hunk_header_within:
  assumes "bounded_by K st" "B \<le> K"
    and "\<forall>a c. hunk_start (split h) = Inr (a, c) \<longrightarrow> \<bar>a\<bar> \<le> B \<and> \<bar>c\<bar> \<le> B"
  shows "bounded_by K (hunk_header st h)"
proof -
  have "0 \<le> K" using assms(1) unfolding bounded_by_def by arith
  then show ?thesis
    using assms
    by (auto simp: hunk_header_def bounded_by_def Let_def split: sum.splits exn.splits)
qed

lemma plain_line_within:
  assumes "bounded_by K st" "K < 10 ^ int_max_str_digits"
  shows "\<exists>st'. plain_line st line = Inr st' \<and> bounded_by (K + 1) st'"
proof -
  have "\<bar>old_ln st\<bar> < 10 ^ int_max_str_digits" "\<bar>new_ln st\<bar> < 10 ^ int_max_str_digits"
    using assms by (simp_all add: bounded_by_def)
  then obtain d1 d2 where "str_int (old_ln st) = Inr d1" "str_int (new_ln st) = Inr d2"
    using str_int_small by blast
  then show ?thesis
    using assms(1) by (auto simp: plain_line_def entry_def bounded_by_def)
qed

lemma scan_within:
  assumes "bounded_by K st" "B \<le> K" "K + int (length ls) < 10 ^ int_max_str_digits"
    and "\<forall>h \<in> set ls. \<forall>a c. startswith h ''@@'' \<and> hunk_start (split h) = Inr (a, c) \<longrightarrow>
           \<bar>a\<bar> \<le> B \<and> \<bar>c\<bar> \<le> B"
  shows "\<exists>st'. scan st ls = Inr st' \<and> bounded_by (K + int (length ls)) st'"
  using assms
proof (induction st ls arbitrary: K rule: scan.induct)
  case (1 st)
  then show ?case by simp
next
  case (2 st line)
  show ?case
  proof (cases "startswith line ''@@''")
    case True
    have "bounded_by K (hunk_header st line)"
      using 2(1,2) by (rule hunk_header_within) (use 2(4) True in simp)
    then have "bounded_by (K + 1) (hunk_header st line)" by (rule bounded_by_mono) simp
    with True show ?thesis by simp
  next
    case False
    have "K < 10 ^ int_max_str_digits" using 2(3) by simp
    with 2(1) obtain st' where "plain_line st line = Inr st'" "bounded_by (K + 1) st'"
      using plain_line_within by blast
    with False show ?thesis by simp
  qed
next
  case (3 st line next_line rest)
  let ?n = "int (length (next_line # rest))"
  have hd: "\<forall>h \<in> set (next_line # rest). \<forall>a c.
      startswith h ''@@'' \<and> hunk_start (split h) = Inr (a, c) \<longrightarrow> \<bar>a\<bar> \<le> B \<and> \<bar>c\<bar> \<le> B"
    and hd': "\<forall>h \<in> set rest. \<forall>a c.
      startswith h ''@@'' \<and> hunk_start (split h) = Inr (a, c) \<longrightarrow> \<bar>a\<bar> \<le> B \<and> \<bar>c\<bar> \<le> B"
    using 3(7) by simp_all
  show ?case
  proof (cases "startswith line ''@@''")
    case True
    have w: "bounded_by K (hunk_header st line)"
      using 3(4,5) by (rule hunk_header_within) (use 3(7) True in simp)
    have b: "K + ?n < 10 ^ int_max_str_digits" using 3(6) by simp
    obtain st' where "scan (hunk_header st line) (next_line # rest) = Inr st'"
      "bounded_by (K + ?n) st'"
      using 3(1) [OF True w 3(5) b hd] by blast
    moreover from this have "bounded_by (K + int (length (line # next_line # rest))) st'"
      by (elim bounded_by_mono) simp
    ultimately show ?thesis using True by simp
  next
    case False
    show ?thesis
    proof (cases "startswith line ''-'' \<and> startswith next_line ''+'' \<and>
        same_but_whitespace line next_line")
      case True
      have w: "bounded_by (K + 2) (skip_pair st)"
        using 3(4) unfolding bounded_by_def skip_pair_def by simp arith
      have b: "K + 2 + int (length rest) < 10 ^ int_max_str_digits" and k: "B \<le> K + 2"
        using 3(5,6) by simp_all
      obtain st' where "scan (skip_pair st) rest = Inr st'"
        "bounded_by (K + 2 + int (length rest)) st'"
        using 3(2) [OF False True w k b hd'] by blast
      moreover from this have "bounded_by (K + int (length (line # next_line # rest))) st'"
        by (elim bounded_by_mono) simp
      ultimately show ?thesis using False True by simp
    next
      case np: False
      have "K < 10 ^ int_max_str_digits" using 3(6) by simp
      with 3(4) obtain st1 where p: "plain_line st line = Inr st1" and w: "bounded_by (K + 1) st1"
        using plain_line_within by blast
      have b: "K + 1 + ?n < 10 ^ int_max_str_digits" and k: "B \<le> K + 1"
        using 3(5,6) by simp_all
      obtain st' where "scan st1 (next_line # rest) = Inr st'"
        "bounded_by (K + 1 + ?n) st'"
        using 3(3) [OF False np p w k b hd] by blast
      moreover from this have "bounded_by (K + int (length (line # next_line # rest))) st'"
        by (elim bounded_by_mono) simp
      ultimately show ?thesis using False np p by auto
    qed
  qed
qed

lemma format_total:
  assumes "0 \<le> B" "B + int (length ls) < 10 ^ int_max_str_digits"
    and "\<forall>h \<in> set ls. \<forall>i j. startswith h ''@@'' \<and> hunk_start (split h) = Inr (i, j) \<longrightarrow>
           \<bar>i\<bar> \<le> B \<and> \<bar>j\<bar> \<le> B"
  shows "\<exists>text. format_diff_as_markdown ls = Inr text"
proof -
  have "bounded_by B initial_report"
    using assms(1) by (simp add: bounded_by_def initial_report_def)
  then obtain st' where "scan initial_report ls = Inr st'"
    using scan_within [OF _ order_refl assms(2,3)] by blast
  then show ?thesis by (simp add: format_diff_as_markdown_def)
qed

lemma format_ValueError: "format_diff_as_markdown ls = Inl e \<Longrightarrow> e = ValueError"
  by (auto simp: format_diff_as_markdown_def split: sum.splits dest: scan_ValueError)

lemma removed_line_raises:
  assumes "10 ^ int_max_str_digits \<le> \<bar>old_ln st\<bar>" "startswith l ''-''" "\<not> startswith l ''---''"
  shows "plain_line st l = Inl ValueError"
  using assms by (simp add: plain_line_def entry_def str_int_big)

lemma added_line_raises:
  assumes "10 ^ int_max_str_digits \<le> \<bar>new_ln st\<bar>" "startswith l ''+''" "\<not> startswith l ''+++''"
  shows "plain_line st l = Inl ValueError"
proof -
  have "\<not> startswith l ''-''"
    using assms(2) by (cases l) (simp_all add: startswith_def)
  then show ?thesis
    using assms by (simp add: plain_line_def entry_def str_int_big)
qed

lemma hunk_header_unified:
  "hunk_header st (unified_hunk_header a b c d) =
     (if a < 10 ^ int_max_str_digits \<and> c < 10 ^ int_max_str_digits
      then st\<lparr>old_ln := int a, new_ln := int c\<rparr> else st\<lparr>old_ln := 0, new_ln := 0\<rparr>)"
proof -
  have l: "int_max_str_digits < length (str_nat n) \<longleftrightarrow> \<not> n < 10 ^ int_max_str_digits" for n
    using length_str_nat_le [OF int_max_str_digits_pos, of n] by auto
  have "3 \<le> length (split (unified_hunk_header a b c d))"
    by (simp add: split_unified_hunk_header)
  then show ?thesis
    by (simp add: hunk_header_def Let_def hunk_start_unified l)
qed

text \<open>
  C8, amended. The loop is a function on every list of lines: it ends. Where it
  reads a hunk header, the body of its \<open>try\<close> raises nothing but the two exceptions
  the handler catches; behind the guard of line 151 it raises \<open>ValueError\<close> only. On a
  line that starts with \<open>@@\<close> the loop changes the two counters only, and goes on
  with the next line. The header \<open>@@ -a,b +c,d @@\<close> sets them to \<open>a\<close> and \<open>c\<close> when both
  have at most \<open>int_max_str_digits\<close> digits, and to zero when one of them has more,
  since \<open>int\<close> then raises \<open>ValueError\<close>. A header of three fields or more sets them to
  the two integers that its second and third field hold after their first
  character and before their first comma, and sets both to zero when one of the two
  is not the text of an integer that \<open>int\<close> accepts. A header of fewer than three
  fields leaves both as they are.

  The formatter is not total: an entry of the Removed or of the Added list holds
  the counter of its line, and writing a counter of more than \<open>int_max_str_digits\<close>
  digits raises \<open>ValueError\<close>, outside any \<open>try\<close>. That is the only exception of the
  formatter, and it raises none when the numbers of the hunk headers are at most
  \<open>B\<close> in absolute value and \<open>B\<close> plus the number of lines is below ten to the power
  \<open>int_max_str_digits\<close>.
\<close>

theorem hunk_header_counters:
  "(a < 10 ^ int_max_str_digits \<and> c < 10 ^ int_max_str_digits \<longrightarrow>
      hunk_header st (unified_hunk_header a b c d) = st\<lparr>old_ln := int a, new_ln := int c\<rparr>) \<and>
   (10 ^ int_max_str_digits \<le> a \<or> 10 ^ int_max_str_digits \<le> c \<longrightarrow>
      hunk_header st (unified_hunk_header a b c d) = st\<lparr>old_ln := 0, new_ln := 0\<rparr>) \<and>
   (3 \<le> length (split good) \<and> hunk_start (split good) = Inr (x, y) \<longrightarrow>
      hunk_header st good = st\<lparr>old_ln := x, new_ln := y\<rparr>) \<and>
   (3 \<le> length (split bad) \<and> hunk_start (split bad) = Inl e \<longrightarrow>
      e = ValueError \<and> hunk_header st bad = st\<lparr>old_ln := 0, new_ln := 0\<rparr>) \<and>
   (length (split short) < 3 \<longrightarrow> hunk_header st short = st) \<and>
   (startswith line ''@@'' \<longrightarrow> scan st (line # rest) = scan (hunk_header st line) rest) \<and>
   (format_diff_as_markdown ls = Inl raised \<longrightarrow> raised = ValueError) \<and>
   (0 \<le> B \<and> B + int (length ls) < 10 ^ int_max_str_digits \<and>
    (\<forall>h \<in> set ls. \<forall>i j. startswith h ''@@'' \<and> hunk_start (split h) = Inr (i, j) \<longrightarrow>
       \<bar>i\<bar> \<le> B \<and> \<bar>j\<bar> \<le> B) \<longrightarrow>
      (\<exists>text. format_diff_as_markdown ls = Inr text)) \<and>
   (10 ^ int_max_str_digits \<le> \<bar>old_ln st\<bar> \<and> startswith l ''-'' \<and> \<not> startswith l ''---'' \<longrightarrow>
      scan st [l] = Inl ValueError) \<and>
   (10 ^ int_max_str_digits \<le> \<bar>new_ln st\<bar> \<and> startswith l ''+'' \<and> \<not> startswith l ''+++'' \<longrightarrow>
      scan st [l] = Inl ValueError)"
proof -
  have c1: "hunk_header st (unified_hunk_header a b c d) = st\<lparr>old_ln := int a, new_ln := int c\<rparr>"
    if "a < 10 ^ int_max_str_digits \<and> c < 10 ^ int_max_str_digits"
    using that by (simp add: hunk_header_unified)
  have c2: "hunk_header st (unified_hunk_header a b c d) = st\<lparr>old_ln := 0, new_ln := 0\<rparr>"
    if "10 ^ int_max_str_digits \<le> a \<or> 10 ^ int_max_str_digits \<le> c"
    using that by (auto simp: hunk_header_unified)
  have c3: "hunk_header st good = st\<lparr>old_ln := x, new_ln := y\<rparr>"
    if "3 \<le> length (split good) \<and> hunk_start (split good) = Inr (x, y)"
    using that by (simp add: hunk_header_def)
  have c4: "e = ValueError \<and> hunk_header st bad = st\<lparr>old_ln := 0, new_ln := 0\<rparr>"
    if "3 \<le> length (split bad) \<and> hunk_start (split bad) = Inl e"
    using that hunk_start_not_IndexError [of "split bad"]
    by (cases e) (simp_all add: hunk_header_def)
  have c5: "hunk_header st short = st" if "length (split short) < 3"
    using that by (simp add: hunk_header_def)
  have c6: "scan st (line # rest) = scan (hunk_header st line) rest" if "startswith line ''@@''"
    using that by (rule scan_header)
  have c7: "raised = ValueError" if "format_diff_as_markdown ls = Inl raised"
    using that by (rule format_ValueError)
  have c8: "\<exists>text. format_diff_as_markdown ls = Inr text"
    if "0 \<le> B \<and> B + int (length ls) < 10 ^ int_max_str_digits \<and>
      (\<forall>h \<in> set ls. \<forall>i j. startswith h ''@@'' \<and> hunk_start (split h) = Inr (i, j) \<longrightarrow>
         \<bar>i\<bar> \<le> B \<and> \<bar>j\<bar> \<le> B)"
    using that format_total [of B ls] by blast
  have c9: "scan st [l] = Inl ValueError"
    if "10 ^ int_max_str_digits \<le> \<bar>old_ln st\<bar> \<and> startswith l ''-'' \<and> \<not> startswith l ''---''"
  proof -
    have "\<not> startswith l ''@@''"
      using that by (cases l) (simp_all add: startswith_def)
    with that show ?thesis by (simp add: removed_line_raises)
  qed
  have c10: "scan st [l] = Inl ValueError"
    if "10 ^ int_max_str_digits \<le> \<bar>new_ln st\<bar> \<and> startswith l ''+'' \<and> \<not> startswith l ''+++''"
  proof -
    have "\<not> startswith l ''@@''"
      using that by (cases l) (simp_all add: startswith_def)
    with that show ?thesis by (simp add: added_line_raises)
  qed
  from c1 c2 c3 c4 c5 c6 c7 c8 c9 c10 show ?thesis by blast
qed

lemma small_below_limit: "n < 100 \<Longrightarrow> n < (10::nat) ^ int_max_str_digits"
proof -
  assume "n < 100"
  moreover have "(10::nat) ^ 2 \<le> 10 ^ int_max_str_digits"
    by (intro power_increasing) (simp_all add: int_max_str_digits_def)
  ultimately show ?thesis by simp
qed

theorem hunk_header_counters_witness:
  "hunk_header initial_report ''@@ -12,3 +15,4 @@'' = initial_report\<lparr>old_ln := 12, new_ln := 15\<rparr> \<and>
   hunk_header \<lparr>add = [], remove = [], old_ln = 5, new_ln = 7\<rparr>
       (unified_hunk_header (10 ^ int_max_str_digits) 3 15 4) =
     \<lparr>add = [], remove = [], old_ln = 0, new_ln = 0\<rparr> \<and>
   3 \<le> length (split ''@@ x7 y-9 @@'') \<and> hunk_start (split ''@@ x7 y-9 @@'') = Inr (7, - 9) \<and>
   hunk_header initial_report ''@@ x7 y-9 @@'' = initial_report\<lparr>old_ln := 7, new_ln := - 9\<rparr> \<and>
   3 \<le> length (split ''@@ -3 +three @@'') \<and> hunk_start (split ''@@ -3 +three @@'') = Inl ValueError \<and>
   hunk_header \<lparr>add = [], remove = [], old_ln = 5, new_ln = 7\<rparr> ''@@ -3 +three @@'' =
     \<lparr>add = [], remove = [], old_ln = 0, new_ln = 0\<rparr> \<and>
   length (split ''@@ -3,2'') < 3 \<and>
   hunk_header \<lparr>add = [], remove = [], old_ln = 5, new_ln = 7\<rparr> ''@@ -3,2'' =
     \<lparr>add = [], remove = [], old_ln = 5, new_ln = 7\<rparr> \<and>
   startswith ''@@ -3,2'' ''@@'' \<and>
   scan \<lparr>add = [], remove = [], old_ln = 5, new_ln = 7\<rparr> [''@@ -3,2'', ''+z''] =
     Inr \<lparr>add = [''L7: z''], remove = [], old_ln = 5, new_ln = 8\<rparr> \<and>
   (\<exists>text. format_diff_as_markdown [''@@ -12,3 +15,4 @@'', ''-x'', ''+y''] = Inr text) \<and>
   scan \<lparr>add = [], remove = [], old_ln = 10 ^ int_max_str_digits, new_ln = 1\<rparr> [''-y''] =
     Inl ValueError \<and>
   format_diff_as_markdown
     [unified_hunk_header (10 ^ int_max_str_digits - 1) 1 1 1, '' x'', ''-y''] = Inl ValueError"
proof -
  let ?st = "\<lparr>add = [], remove = [], old_ln = 5, new_ln = 7\<rparr>"
  let ?ls = "[''@@ -12,3 +15,4 @@'', ''-x'', ''+y'']"
  let ?big = "\<lparr>add = [], remove = [], old_ln = 10 ^ int_max_str_digits, new_ln = 1\<rparr>"
  have u: "unified_hunk_header 12 3 15 4 = ''@@ -12,3 +15,4 @@''"
    by code_simp
  have g: "3 \<le> length (split ''@@ x7 y-9 @@'')" "hunk_start (split ''@@ x7 y-9 @@'') = Inr (7, - 9)"
    by code_simp+
  have b: "3 \<le> length (split ''@@ -3 +three @@'')"
    "hunk_start (split ''@@ -3 +three @@'') = Inl ValueError"
    by code_simp+
  have s: "length (split ''@@ -3,2'') < 3" "startswith ''@@ -3,2'' ''@@''"
    by code_simp+
  have r: "scan ?st [''+z''] = Inr \<lparr>add = [''L7: z''], remove = [], old_ln = 5, new_ln = 8\<rparr>"
    by code_simp
  have sm: "(12::nat) < 10 ^ int_max_str_digits" "(15::nat) < 10 ^ int_max_str_digits"
    by (simp_all add: small_below_limit)
  have hs: "hunk_start (split ''@@ -12,3 +15,4 @@'') = Inr (12, 15)"
    "\<not> startswith ''-x'' ''@@''" "\<not> startswith ''+y'' ''@@''"
    by code_simp+
  have fit: "(0::int) \<le> 15 \<and> 15 + int (length ?ls) < 10 ^ int_max_str_digits \<and>
      (\<forall>h \<in> set ?ls. \<forall>i j. startswith h ''@@'' \<and> hunk_start (split h) = Inr (i, j) \<longrightarrow>
         \<bar>i\<bar> \<le> 15 \<and> \<bar>j\<bar> \<le> 15)"
  proof -
    have "(18::nat) < 10 ^ int_max_str_digits" by (simp add: small_below_limit)
    then have "int 18 < int (10 ^ int_max_str_digits)" by (simp only: of_nat_less_iff)
    then have "15 + int (length ?ls) < 10 ^ int_max_str_digits" by simp
    then show ?thesis using hs by simp
  qed
  have bg: "10 ^ int_max_str_digits \<le> \<bar>old_ln ?big\<bar> \<and> startswith ''-y'' ''-'' \<and>
      \<not> startswith ''-y'' ''---''"
    by (simp add: startswith_def)
  note t1 = hunk_header_counters [of 12 15 initial_report 3 4 "''@@ x7 y-9 @@''" 7 "- 9"
      "''@@ -3 +three @@''" ValueError "''@@ -3,2''" "''@@ -3,2''" "[''+z'']" ?ls ValueError 15 "''-y''"]
  note t2 = hunk_header_counters [of "10 ^ int_max_str_digits" 15 ?st 3 4 "''@@ x7 y-9 @@''" 7 "- 9"
      "''@@ -3 +three @@''" ValueError "''@@ -3,2''" "''@@ -3,2''" "[''+z'']" ?ls ValueError 15 "''-y''"]
  note t3 = hunk_header_counters [of "10 ^ int_max_str_digits - 1" 1 ?big 1 1 "''@@ x7 y-9 @@''" 7 "- 9"
      "''@@ -3 +three @@''" ValueError "''@@ -3,2''" "''@@ -3,2''" "[''+z'']" ?ls ValueError 15 "''-y''"]
  from t1 sm have w1: "hunk_header initial_report ''@@ -12,3 +15,4 @@'' =
      initial_report\<lparr>old_ln := 12, new_ln := 15\<rparr>"
    unfolding u by simp
  from t2 have "hunk_header ?st (unified_hunk_header (10 ^ int_max_str_digits) 3 15 4) =
      ?st\<lparr>old_ln := 0, new_ln := 0\<rparr>"
    by blast
  then have w2: "hunk_header ?st (unified_hunk_header (10 ^ int_max_str_digits) 3 15 4) =
      \<lparr>add = [], remove = [], old_ln = 0, new_ln = 0\<rparr>"
    by simp
  from t1 g have w3: "hunk_header initial_report ''@@ x7 y-9 @@'' =
      initial_report\<lparr>old_ln := 7, new_ln := - 9\<rparr>"
    by blast
  from t2 b have "hunk_header ?st ''@@ -3 +three @@'' = ?st\<lparr>old_ln := 0, new_ln := 0\<rparr>"
    by blast
  then have w4: "hunk_header ?st ''@@ -3 +three @@'' =
      \<lparr>add = [], remove = [], old_ln = 0, new_ln = 0\<rparr>"
    by simp
  from t2 s have w5: "hunk_header ?st ''@@ -3,2'' = ?st"
    and "scan ?st [''@@ -3,2'', ''+z''] = scan (hunk_header ?st ''@@ -3,2'') [''+z'']"
    by blast+
  then have w6: "scan ?st [''@@ -3,2'', ''+z''] =
      Inr \<lparr>add = [''L7: z''], remove = [], old_ln = 5, new_ln = 8\<rparr>"
    by (simp only: r)
  from t1 fit have w7: "\<exists>text. format_diff_as_markdown ?ls = Inr text"
    by blast
  from t3 bg have w8: "scan ?big [''-y''] = Inl ValueError"
    by blast
  have one: "(1::nat) \<le> 10 ^ int_max_str_digits" by simp
  have w9: "format_diff_as_markdown
      [unified_hunk_header (10 ^ int_max_str_digits - 1) 1 1 1, '' x'', ''-y''] = Inl ValueError"
  proof -
    let ?h = "unified_hunk_header (10 ^ int_max_str_digits - 1) 1 1 1"
    have "startswith ?h ''@@''"
      by (simp add: unified_hunk_header_def startswith_def)
    then have "scan initial_report [?h, '' x'', ''-y''] =
        scan (hunk_header initial_report ?h) ['' x'', ''-y'']"
      by (rule scan_header)
    moreover have "(10::nat) ^ int_max_str_digits - 1 < 10 ^ int_max_str_digits"
      "(1::nat) < 10 ^ int_max_str_digits"
      by (simp_all add: small_below_limit)
    then have "hunk_header initial_report ?h =
        initial_report\<lparr>old_ln := int (10 ^ int_max_str_digits - 1), new_ln := int 1\<rparr>"
      by (simp add: hunk_header_unified)
    moreover have "int (10 ^ int_max_str_digits - 1) + 1 = 10 ^ int_max_str_digits"
      using one by (simp add: of_nat_diff)
    then have "plain_line (initial_report\<lparr>old_ln := int (10 ^ int_max_str_digits - 1) + 1,
        new_ln := int 1 + 1\<rparr>) ''-y'' = Inl ValueError"
      by (intro removed_line_raises) (simp_all add: startswith_def)
    ultimately have "scan initial_report [?h, '' x'', ''-y''] = Inl ValueError"
      by (simp add: plain_line_def [of _ "'' x''"] startswith_def same_but_whitespace_def)
    then show ?thesis by (simp add: format_diff_as_markdown_def)
  qed
  from w1 w2 g w3 b w4 s w5 w6 w7 w8 w9 show ?thesis by blast
qed

section \<open>Properties of the ignore rules\<close>

lemma should_ignore_file_iff:
  "should_ignore_file pm ps pats \<longleftrightarrow>
     (\<exists>pat \<in> set pats.
        if endswith pat ''/*'' then take (length pat - 2) pat \<in> set ps
        else if CHR ''*'' \<in> set pat \<or> CHR ''?'' \<in> set pat then pm ps pat
        else name ps = pat)"
  by (induction pats) (auto simp: Let_def)

text \<open>
  C9. The rules are tried in their configured order and the first one that applies
  excludes the path, so a path is excluded exactly when some rule applies to it. A
  rule that ends in \<open>/*\<close> applies to the paths that have a part equal to what
  stands before \<open>/*\<close>, at any depth; any other rule with a \<open>*\<close> or a \<open>?\<close> applies to the
  paths that the library's glob matching of paths accepts for it; any other rule
  applies to the paths whose name is the rule itself. So \<open>build/*\<close> excludes the
  paths with a part \<open>build\<close>, and \<open>.DS_Store\<close> the files of that name only.
\<close>

theorem ignore_rule_forms:
  "(should_ignore_file pm ps pats \<longleftrightarrow>
      (\<exists>pat \<in> set pats.
         if endswith pat ''/*'' then take (length pat - 2) pat \<in> set ps
         else if CHR ''*'' \<in> set pat \<or> CHR ''?'' \<in> set pat then pm ps pat
         else name ps = pat)) \<and>
   (should_ignore_file pm ps [dir @ ''/*''] \<longleftrightarrow> dir \<in> set ps) \<and>
   (should_ignore_file pm ps [''build/*''] \<longleftrightarrow> ''build'' \<in> set ps) \<and>
   (should_ignore_file pm ps [''*.tmp''] \<longleftrightarrow> pm ps ''*.tmp'') \<and>
   (should_ignore_file pm ps [''.DS_Store''] \<longleftrightarrow> name ps = ''.DS_Store'')"
proof -
  have "endswith (dir @ ''/*'') ''/*''"
    by (simp add: endswith_def)
  then have "should_ignore_file pm ps [dir @ ''/*''] \<longleftrightarrow> dir \<in> set ps"
    by (simp add: Let_def)
  moreover have "should_ignore_file pm ps [''build/*''] \<longleftrightarrow> ''build'' \<in> set ps"
    by (simp add: endswith_def Let_def)
  moreover have "should_ignore_file pm ps [''*.tmp''] \<longleftrightarrow> pm ps ''*.tmp''"
    by (simp add: endswith_def)
  moreover have "should_ignore_file pm ps [''.DS_Store''] \<longleftrightarrow> name ps = ''.DS_Store''"
    by (simp add: endswith_def)
  ultimately show ?thesis
    using should_ignore_file_iff [of pm ps pats] by blast
qed

theorem ignore_rule_forms_witness:
  "should_ignore_file (\<lambda>ps pat. pat = ''*.tmp'' \<and> endswith (name ps) ''.tmp'')
     [''src'', ''build'', ''out.txt''] [''*.tmp'', ''build/*'', ''.DS_Store''] \<and>
   \<not> should_ignore_file (\<lambda>ps pat. pat = ''*.tmp'' \<and> endswith (name ps) ''.tmp'')
     [''src'', ''builds'', ''.DS_Store.txt''] [''*.tmp'', ''build/*'', ''.DS_Store''] \<and>
   should_ignore_file (\<lambda>ps pat. pat = ''*.tmp'' \<and> endswith (name ps) ''.tmp'')
     [''src'', ''.DS_Store''] [''.DS_Store''] \<and>
   \<not> should_ignore_file (\<lambda>ps pat. pat = ''*.tmp'' \<and> endswith (name ps) ''.tmp'')
     [''.DS_Store'', ''a.txt''] [''.DS_Store'']"
proof -
  let ?pm = "\<lambda>ps pat. pat = ''*.tmp'' \<and> endswith (name ps) ''.tmp''"
  have "should_ignore_file ?pm [''src'', ''build'', ''out.txt''] [''*.tmp'', ''build/*'', ''.DS_Store'']"
    using ignore_rule_forms [of ?pm "[''src'', ''build'', ''out.txt'']"
        "[''*.tmp'', ''build/*'', ''.DS_Store'']" "''build''"]
    by (simp add: endswith_def name_def Let_def)
  moreover have "\<not> should_ignore_file ?pm [''src'', ''builds'', ''.DS_Store.txt'']
      [''*.tmp'', ''build/*'', ''.DS_Store'']"
    using ignore_rule_forms [of ?pm "[''src'', ''builds'', ''.DS_Store.txt'']"
        "[''*.tmp'', ''build/*'', ''.DS_Store'']" "''build''"]
    by (simp add: endswith_def name_def Let_def)
  moreover have "should_ignore_file ?pm [''src'', ''.DS_Store''] [''.DS_Store'']"
    using ignore_rule_forms [of ?pm "[''src'', ''.DS_Store'']" "[]" "''build''"]
    by (simp add: endswith_def name_def Let_def)
  moreover have "\<not> should_ignore_file ?pm [''.DS_Store'', ''a.txt''] [''.DS_Store'']"
    using ignore_rule_forms [of ?pm "[''.DS_Store'', ''a.txt'']" "[]" "''build''"]
    by (simp add: endswith_def name_def Let_def)
  ultimately show ?thesis by blast
qed

section \<open>Properties of the content hasher\<close>

lemma fed_read_chunks: "fed (read_chunks h unread) = fed h @ unread"
proof (induction h unread rule: read_chunks.induct)
  case (1 h unread)
  show ?case
  proof (cases "take 8192 unread = []")
    case True
    then have "unread = []" by (cases unread) simp_all
    then show ?thesis by (subst read_chunks.simps) simp
  next
    case False
    then have "fed (read_chunks h unread) =
        fed (read_chunks (update h (take 8192 unread)) (drop 8192 unread))"
      by (subst read_chunks.simps) (simp add: Let_def)
    also have "\<dots> = fed (update h (take 8192 unread)) @ drop 8192 unread"
      using False by (intro "1.IH") simp_all
    finally show ?thesis by (simp add: update_def)
  qed
qed

lemma length_hex_word: "length (hex_word w) = 8"
  by (simp add: hex_word_def)

lemma length_sha1_hex: "length (sha1_hex msg) = 40"
  by (simp add: sha1_hex_def length_hex_word split: prod.splits)

text \<open>
  C7. For a file that can be read, the digest is the SHA-1 of its bytes, whatever
  the chunks they are read in: forty characters, and the same for any two files of
  the same content. For a file that cannot be opened or read, it is the sentinel
  \<open>unreadable-\<close> followed by the base name of the path, the same at every call.
\<close>

theorem hash_file_deterministic:
  "hash_file (Readable content) p = sha1_hex content \<and>
   length (hash_file (Readable content) p) = 40 \<and>
   hash_file (Readable content) p = hash_file (Readable content) q \<and>
   hash_file Unreadable p = ''unreadable-'' @ basename p"
  by (simp add: hash_file_def hexdigest_def fed_read_chunks length_sha1_hex)

theorem hash_file_deterministic_witness:
  "hash_file (Readable ''hello'') ''docs/a.txt'' = sha1_hex ''hello'' \<and>
   length (hash_file (Readable ''hello'') ''docs/a.txt'') = 40 \<and>
   hash_file (Readable ''hello'') ''docs/a.txt'' = hash_file (Readable ''hello'') ''b.txt'' \<and>
   hash_file Unreadable ''docs/a.txt'' = ''unreadable-a.txt''"
proof -
  have "''unreadable-'' @ basename ''docs/a.txt'' = ''unreadable-a.txt''"
    by (simp add: basename_def)
  with hash_file_deterministic [of "''hello''" "''docs/a.txt''" "''b.txt''"]
  show ?thesis by metis
qed

section \<open>Properties of the floating point model\<close>

lemma log2_floor_bounds:
  "0 < n \<Longrightarrow> 2 ^ log2_floor n \<le> n \<and> n < 2 ^ Suc (log2_floor n)"
proof (induction n rule: log2_floor.induct)
  case (1 n)
  show ?case
  proof (cases "n < 2")
    case True
    with 1(2) have "n = 1" by simp
    then show ?thesis by (simp add: log2_floor.simps)
  next
    case False
    then have "0 < n div 2" by simp
    with 1(1) False have ih: "2 ^ log2_floor (n div 2) \<le> n div 2"
      "n div 2 < 2 ^ Suc (log2_floor (n div 2))" by simp_all
    have l: "log2_floor n = Suc (log2_floor (n div 2))"
      using False by (subst log2_floor.simps) simp
    from ih(1) have "2 * 2 ^ log2_floor (n div 2) \<le> n" by linarith
    moreover from ih(2) have "n < 2 * 2 ^ Suc (log2_floor (n div 2))" by linarith
    ultimately show ?thesis by (simp add: l)
  qed
qed

lemma two_pow_pos: "0 < two_pow e"
  by (simp add: two_pow_def)

lemma two_pow_Suc: "two_pow (e + 1) = 2 * two_pow e"
proof -
  consider "0 \<le> e" | "e = - 1" | "e < - 1" by linarith
  then show ?thesis
  proof cases
    case 1
    then show ?thesis by (simp add: two_pow_def nat_add_distrib)
  next
    case 2
    then show ?thesis by (simp add: two_pow_def)
  next
    case 3
    then have "nat (- e) = Suc (nat (- (e + 1)))" by simp
    with 3 show ?thesis by (simp add: two_pow_def)
  qed
qed

lemma two_pow_add_nat: "two_pow (e + int n) = 2 ^ n * two_pow e"
proof (induction n)
  case 0
  then show ?case by simp
next
  case (Suc n)
  have "e + int (Suc n) = (e + int n) + 1" by simp
  then have "two_pow (e + int (Suc n)) = two_pow ((e + int n) + 1)" by (simp only:)
  then show ?case by (simp add: two_pow_Suc Suc)
qed

lemma two_pow_mono: "a \<le> b \<Longrightarrow> two_pow a \<le> two_pow b"
proof -
  assume "a \<le> b"
  then obtain n where "b = a + int n" by (metis zle_iff_zadd)
  moreover have "(1::rat) \<le> 2 ^ n" by simp
  ultimately show ?thesis
    using two_pow_pos [of a] by (simp add: two_pow_add_nat mult_le_cancel_right1)
qed

lemma two_pow_less_imp: "two_pow a < two_pow b \<Longrightarrow> a < b"
  using two_pow_mono [of b a] by (cases "a < b") auto

lemma two_pow_diff: "two_pow (int a - int b) = 2 ^ a / 2 ^ b"
proof -
  have "two_pow (int a - int b + int b) = 2 ^ b * two_pow (int a - int b)"
    by (rule two_pow_add_nat)
  moreover have "two_pow (int a) = 2 ^ a" by (simp add: two_pow_def)
  ultimately show ?thesis by (simp add: field_simps)
qed

lemma exponent_bounds:
  assumes "0 < x"
  shows "two_pow (exponent x) \<le> x \<and> x < two_pow (exponent x + 1)"
proof -
  obtain p q where pq: "quotient_of x = (p, q)" by (cases "quotient_of x")
  then have q: "0 < q" and x: "x = of_int p / of_int q"
    using quotient_of_denom_pos quotient_of_div by blast+
  with assms have p: "0 < p" by (simp add: zero_less_divide_iff)
  define a b where "a = log2_floor (nat p)" and "b = log2_floor (nat q)"
  have "2 ^ a \<le> nat p" "nat p < 2 ^ Suc a" "2 ^ b \<le> nat q" "nat q < 2 ^ Suc b"
    using log2_floor_bounds [of "nat p"] log2_floor_bounds [of "nat q"] p q
    by (simp_all add: a_def b_def)
  then have "int (2 ^ a) \<le> int (nat p)" "int (nat p) < int (2 ^ Suc a)"
    "int (2 ^ b) \<le> int (nat q)" "int (nat q) < int (2 ^ Suc b)"
    by (simp_all only: of_nat_le_iff of_nat_less_iff)
  moreover have "int (nat p) = p" "int (nat q) = q" using p q by simp_all
  ultimately have "(of_int (int (2 ^ a)) :: rat) \<le> of_int p"
    "(of_int p :: rat) < of_int (int (2 ^ Suc a))"
    "(of_int (int (2 ^ b)) :: rat) \<le> of_int q"
    "(of_int q :: rat) < of_int (int (2 ^ Suc b))"
    by (simp_all only: of_int_le_iff of_int_less_iff)
  then have pb: "(2::rat) ^ a \<le> of_int p" "(of_int p :: rat) < 2 ^ Suc a"
    and qb: "(2::rat) ^ b \<le> of_int q" "(of_int q :: rat) < 2 ^ Suc b"
    by simp_all
  have q0: "(0::rat) < of_int q" "(0::rat) \<le> of_int p" using p q by simp_all
  have lo: "two_pow (int a - int (Suc b)) \<le> x"
  proof -
    have "(2::rat) ^ a / 2 ^ Suc b \<le> of_int p / of_int q"
      using pb(1) qb(2) q0 by (intro frac_le) simp_all
    then show ?thesis unfolding two_pow_diff x .
  qed
  have hi: "x < two_pow (int (Suc a) - int b)"
  proof -
    have "of_int p / of_int q < (2::rat) ^ Suc a / 2 ^ b"
      using pb(2) qb(1) q0 by (intro frac_less) simp_all
    then show ?thesis unfolding two_pow_diff x .
  qed
  show ?thesis
  proof (cases "two_pow (int a - int b) \<le> x")
    case True
    then have e: "exponent x = int a - int b"
      by (simp add: exponent_def pq a_def b_def)
    have "int a - int b + 1 = int (Suc a) - int b" by simp
    with True hi show ?thesis unfolding e by (simp only:)
  next
    case False
    then have e: "exponent x = int a - int (Suc b)"
      by (simp add: exponent_def pq a_def b_def)
    have "int a - int (Suc b) + 1 = int a - int b" by simp
    with False lo show ?thesis unfolding e by (simp only:) simp
  qed
qed

lemma exponent_le: "0 < x \<Longrightarrow> two_pow (exponent x) \<le> x"
  using exponent_bounds by blast

lemma exponent_unique:
  assumes "two_pow e \<le> x" "x < two_pow (e + 1)"
  shows "exponent x = e"
proof -
  have x: "0 < x" using assms(1) two_pow_pos [of e] by linarith
  have "two_pow (exponent x) < two_pow (e + 1)"
    using exponent_bounds [OF x] assms by linarith
  then have "exponent x < e + 1" by (rule two_pow_less_imp)
  moreover have "two_pow e < two_pow (exponent x + 1)"
    using exponent_bounds [OF x] assms by linarith
  then have "e < exponent x + 1" by (rule two_pow_less_imp)
  ultimately show ?thesis by linarith
qed

lemma round_half_even_error: "\<bar>of_int (round_half_even y) - y\<bar> \<le> 1 / 2"
proof -
  have "of_int \<lfloor>y\<rfloor> \<le> y" "y < of_int \<lfloor>y\<rfloor> + 1" by linarith+
  then show ?thesis
    by (auto simp: round_half_even_def Let_def)
qed

lemma round_half_even_near:
  assumes "\<bar>y - of_int k\<bar> < 1 / 2"
  shows "round_half_even y = k"
proof -
  have "\<bar>(of_int (round_half_even y) :: rat) - of_int k\<bar> < 1"
    using round_half_even_error [of y] assms by linarith
  then have "\<bar>(of_int (round_half_even y - k) :: rat)\<bar> < 1" by simp
  then have "\<bar>round_half_even y - k\<bar> < 1"
    by (metis of_int_abs of_int_less_1_iff)
  then show ?thesis by linarith
qed

lemma to_double_at:
  assumes "two_pow e \<le> \<bar>x\<bar>" "\<bar>x\<bar> < two_pow (e + 1)"
    and "\<bar>x / two_pow (e - 52) - of_int m\<bar> < 1 / 2"
  shows "to_double x = of_int m * two_pow (e - 52)"
proof -
  have "x \<noteq> 0" using assms(1) two_pow_pos [of e] by auto
  moreover have "exponent \<bar>x\<bar> = e" using assms(1,2) by (rule exponent_unique)
  moreover have "round_half_even (x / two_pow (e - 52)) = m"
    using assms(3) by (rule round_half_even_near)
  ultimately show ?thesis by (simp add: to_double_def)
qed

lemma to_double_error:
  assumes "\<bar>x\<bar> < 2 ^ 48"
  shows "\<bar>to_double x - x\<bar> \<le> 1 / 64"
proof (cases "x = 0")
  case True
  then show ?thesis by (simp add: to_double_def)
next
  case False
  define u where "u = two_pow (exponent \<bar>x\<bar> - 52)"
  have u: "0 < u" by (simp add: u_def two_pow_pos)
  have "two_pow (exponent \<bar>x\<bar>) \<le> \<bar>x\<bar>" using False by (intro exponent_le) simp
  also have "\<dots> < two_pow 48" using assms by (simp add: two_pow_def)
  finally have "exponent \<bar>x\<bar> < 48" by (rule two_pow_less_imp)
  then have "u \<le> two_pow (- 5)" unfolding u_def by (intro two_pow_mono) simp
  then have u32: "u \<le> 1 / 32" by (simp add: two_pow_def)
  have "to_double x - x = (of_int (round_half_even (x / u)) - x / u) * u"
    using False u by (simp add: to_double_def u_def [symmetric] Let_def field_simps)
  then have "\<bar>to_double x - x\<bar> = \<bar>of_int (round_half_even (x / u)) - x / u\<bar> * u"
    using u by (simp add: abs_mult)
  also have "\<dots> \<le> (1 / 2) * u"
    using round_half_even_error [of "x / u"] u by (intro mult_right_mono) simp_all
  also have "\<dots> \<le> 1 / 64" using u32 by simp
  finally show ?thesis .
qed

lemma tenth_value: "tenth = 3602879701896397 / 36028797018963968"
  by code_simp

lemma to_double_zero: "to_double 0 = 0"
  by (simp add: to_double_def)

lemma to_double_tenth: "to_double tenth = tenth"
proof -
  have "to_double tenth = of_int 7205759403792794 * two_pow (- 4 - 52)"
    by (rule to_double_at) (simp_all add: tenth_value two_pow_def)
  then show ?thesis by (simp add: tenth_value two_pow_def)
qed

lemma rollback_zero:
  "format_1f (float_sub (float_add (float_of_text (One_decimal False 0)) tenth) tenth) =
     One_decimal False 0"
  by (simp add: float_of_text_def float_add_def float_sub_def to_double_zero to_double_tenth
      format_1f_def round_half_even_def)

lemma rollback_text:
  assumes "k < 2 * 10 ^ 15"
  shows "format_1f (float_sub (float_add (float_of_text (One_decimal False k)) tenth) tenth) =
     One_decimal False k"
proof (cases "k = 0")
  case True
  then show ?thesis by (simp add: rollback_zero)
next
  case False
  define x0 :: rat where "x0 = of_nat k / 10"
  define x1 where "x1 = to_double x0"
  define x2 where "x2 = to_double (x1 + tenth)"
  define x3 where "x3 = to_double (x2 - tenth)"
  have c: "1 / 16 \<le> tenth" "tenth \<le> 1 / 8" by (simp_all add: tenth_value)
  have "(of_nat k :: rat) < of_nat (2 * 10 ^ 15)" using assms by (simp only: of_nat_less_iff)
  moreover have "(1::rat) \<le> of_nat k" using False by simp
  ultimately have x0: "x0 < 2 * 10 ^ 14" "1 / 10 \<le> x0"
    by (simp_all add: x0_def)
  have big: "2 * (10::rat) ^ 14 + 1 < 2 ^ 48" by simp
  have e1: "\<bar>x1 - x0\<bar> \<le> 1 / 64"
    unfolding x1_def
  proof (rule to_double_error)
    show "\<bar>x0\<bar> < 2 ^ 48" using x0 big by linarith
  qed
  have e2: "\<bar>x2 - (x1 + tenth)\<bar> \<le> 1 / 64"
    unfolding x2_def
  proof (rule to_double_error)
    show "\<bar>x1 + tenth\<bar> < 2 ^ 48" using x0 e1 c big by linarith
  qed
  have e3: "\<bar>x3 - (x2 - tenth)\<bar> \<le> 1 / 64"
    unfolding x3_def
  proof (rule to_double_error)
    show "\<bar>x2 - tenth\<bar> < 2 ^ 48" using x0 e1 e2 c big by linarith
  qed
  have close: "\<bar>x3 - x0\<bar> \<le> 3 / 64" using e1 e2 e3 by linarith
  then have pos: "\<not> x3 < 0" using x0 by linarith
  have "10 * x0 = of_int (int k)" by (simp add: x0_def)
  then have "\<bar>10 * x3 - of_int (int k)\<bar> < 1 / 2"
    using close by linarith
  then have "round_half_even (10 * x3) = int k" by (rule round_half_even_near)
  then have "format_1f x3 = One_decimal False k"
    using pos by (simp add: format_1f_def)
  then show ?thesis
    by (simp add: x3_def x2_def x1_def x0_def float_sub_def float_add_def float_of_text_def)
qed

lemma rollback_fails_at_2_50:
  "format_1f (float_sub (float_add (float_of_text (One_decimal False 11258999068426240)) tenth) tenth)
     = One_decimal False 11258999068426239"
proof -
  have x1: "float_of_text (One_decimal False 11258999068426240) = 1125899906842624"
  proof -
    have "to_double 1125899906842624 = of_int 4503599627370496 * two_pow (50 - 52)"
      by (rule to_double_at) (simp_all add: two_pow_def)
    then show ?thesis by (simp add: float_of_text_def two_pow_def)
  qed
  have x2: "float_add 1125899906842624 tenth = 1125899906842624"
  proof -
    have "to_double (1125899906842624 + tenth) = of_int 4503599627370496 * two_pow (50 - 52)"
      by (rule to_double_at) (simp_all add: two_pow_def tenth_value)
    then show ?thesis by (simp add: float_add_def two_pow_def)
  qed
  have x3: "float_sub 1125899906842624 tenth = 9007199254740991 / 8"
  proof -
    have "to_double (1125899906842624 - tenth) = of_int 9007199254740991 * two_pow (49 - 52)"
      by (rule to_double_at) (simp_all add: two_pow_def tenth_value)
    then show ?thesis by (simp add: float_sub_def two_pow_def)
  qed
  have "round_half_even (10 * (9007199254740991 / 8)) = 11258999068426239"
    by (rule round_half_even_near) simp
  then show ?thesis by (simp add: x1 x2 x3 format_1f_def)
qed

section \<open>Properties of the commit\<close>

lemma fold_invariant:
  assumes "P r" and "\<And>x r. x \<in> set xs \<Longrightarrow> P r \<Longrightarrow> P (f x r)"
  shows "P (fold f xs r)"
  using assms by (induction xs arbitrary: r) auto

lemma fold_unchanged:
  assumes "\<And>x r. x \<in> set xs \<Longrightarrow> f x r = r"
  shows "fold f xs r = r"
  using assms by (induction xs arbitrary: r) auto

lemma for_each_invariant:
  assumes "P r" and "\<And>x r. x \<in> set xs \<Longrightarrow> P r \<Longrightarrow> P (outcome (body x r))"
  shows "P (outcome (for_each body xs r))"
  using assms
proof (induction xs arbitrary: r)
  case Nil
  then show ?case by (simp add: outcome_def)
next
  case (Cons x xs)
  have p: "P (outcome (body x r))" using Cons.prems by simp
  show ?case
  proof (cases "body x r")
    case (Inl raised)
    with p show ?thesis by (simp add: outcome_def)
  next
    case (Inr r')
    with p have "P r'" by (simp add: outcome_def)
    then have "P (outcome (for_each body xs r'))"
      using Cons.prems(2) by (intro Cons.IH) simp_all
    with Inr show ?thesis by simp
  qed
qed

lemma for_each_unchanged:
  assumes "\<And>x r. x \<in> set xs \<Longrightarrow> body x r = Inr r"
  shows "for_each body xs r = Inr r"
  using assms by (induction xs arbitrary: r) auto

lemma for_each_total:
  assumes "\<And>x r. x \<in> set xs \<Longrightarrow> body x r = Inr (f x r)"
  shows "for_each body xs r = Inr (fold f xs r)"
  using assms by (induction xs arbitrary: r) auto

subsection \<open>What each step leaves alone\<close>

lemma same_but_logs_refl: "same_but_logs r r"
  by (simp add: same_but_logs_def)

lemma same_but_logs_trans: "same_but_logs a b \<Longrightarrow> same_but_logs b c \<Longrightarrow> same_but_logs a c"
  by (simp add: same_but_logs_def)

lemma appended_refl: "appended r r"
  by (simp add: appended_def)

lemma appended_trans:
  assumes "appended a b" "appended b c"
  shows "appended a c"
  unfolding appended_def
proof (intro allI impI)
  fix p old
  assume "changelogs a p = Some old"
  with assms(1) obtain m where "changelogs b p = Some (old @ m)"
    unfolding appended_def by blast
  with assms(2) obtain m' where "changelogs c p = Some ((old @ m) @ m')"
    unfolding appended_def by blast
  then show "\<exists>more. changelogs c p = Some (old @ more)" by simp
qed

lemma appended_same_logs: "changelogs r' = changelogs r \<Longrightarrow> appended r r'"
  by (simp add: appended_def)

lemma append_changelog_frame: "same_but_logs r (append_changelog e p t r)"
  by (simp add: same_but_logs_def append_changelog_def say_def)

lemma append_changelog_appended: "appended r (append_changelog e p t r)"
  by (auto simp: appended_def append_changelog_def say_def)

lemma say_frame: "same_but_logs r (say m r)" "appended r (say m r)"
  by (simp_all add: same_but_logs_def appended_def say_def)

lemma modified_file_step_appended: "appended r (outcome (modified_file_step e v p r))"
  by (simp add: modified_file_step_def outcome_def append_changelog_appended appended_refl
      say_frame split: option.splits work_file.splits sum.splits)

lemma current_step_appended: "appended r (outcome (current_step e old v kv r))"
  by (cases "current_branch old kv")
     (simp_all add: current_step_def new_file_step_def append_changelog_appended
       modified_file_step_appended appended_refl outcome_def [of "Inr _"])

lemma move_to_deleted_frame: "changelogs (move_to_deleted p r) = changelogs r"
  by (simp add: move_to_deleted_def split: option.splits)

lemma deleted_step_appended: "appended r (deleted_step e cur v p r)"
proof (cases "old_branch cur p")
  case True
  have "appended r (move_to_deleted p r)"
    by (rule appended_same_logs) (rule move_to_deleted_frame)
  moreover have "appended (move_to_deleted p r) (append_changelog e p t (move_to_deleted p r))" for t
    by (rule append_changelog_appended)
  ultimately show ?thesis
    using True by (auto simp: deleted_step_def deleted_file_step_def intro: appended_trans)
next
  case False
  then show ?thesis by (simp add: deleted_step_def appended_refl)
qed

lemma current_loop_appended: "appended r (outcome (for_each (current_step e old v) cur r))"
  by (rule for_each_invariant [where P = "appended r"])
     (auto intro: appended_refl appended_trans current_step_appended)

lemma deleted_loop_appended: "appended r (fold (deleted_step e cur v) ps r)"
  by (rule fold_invariant [where P = "appended r"])
     (auto intro: appended_refl appended_trans deleted_step_appended)

lemma loops_appended:
  assumes "for_each (current_step e old v) cur r = Inr r2"
  shows "appended r (fold (deleted_step e cur v) ps r2)"
proof -
  have "appended r r2"
    using current_loop_appended [of r e old v cur] assms by (simp add: outcome_def)
  then show ?thesis
    using deleted_loop_appended by (blast intro: appended_trans)
qed

lemma replace_snapshot_frame:
  "hashes_json (replace_snapshot e files r) = hashes_json r"
  "changelogs (replace_snapshot e files r) = changelogs r"
  "version_txt (replace_snapshot e files r) = version_txt r"
  by (simp_all add: replace_snapshot_def snapshot_failed_def say_def Let_def split: sum.splits)

lemma write_version_fields:
  "changelogs (write_version v r) = changelogs r"
  "hashes_json (write_version v r) = hashes_json r"
  "snapshot (write_version v r) = snapshot r"
  "version_txt (write_version v r) = Holds (format_1f v)"
  by (simp_all add: write_version_def)

lemma say_fields:
  "changelogs (say m r) = changelogs r"
  "hashes_json (say m r) = hashes_json r"
  "snapshot (say m r) = snapshot r"
  "version_txt (say m r) = version_txt r"
  by (simp_all add: say_def)

lemma save_hashes_fields:
  "changelogs (save_hashes d r) = changelogs r"
  "hashes_json (save_hashes d r) = Holds d"
  "version_txt (save_hashes d r) = version_txt r"
  by (simp_all add: save_hashes_def)

subsection \<open>The commit once the hash index is loaded\<close>

lemma update_gitnot_unfold:
  fixes e :: env and r :: repo
  assumes "gitnot_dir r" "load_json (hashes_json r) = Inr old"
  defines "cur \<equiv> hashes_of (work r)"
    and "v \<equiv> float_add (read_version r) tenth"
  shows "update_gitnot e r =
     (case for_each (current_step e old v) cur (write_version v r) of
        Inl (raised, r2) \<Rightarrow> say Unexpected_error r2
      | Inr r2 \<Rightarrow>
          (let r3 = fold (deleted_step e cur v) (keys old) r2
           in if \<not> changes_made old cur then say No_changes (write_version (float_sub v tenth) r3)
              else if snapshot r3 \<noteq> None then
                say (Tracked (length (work r)))
                  (say (Version_bumped (format_1f v))
                    (save_hashes cur (replace_snapshot e (work r) r3)))
              else say Snapshot_missing r3))"
  unfolding cur_def v_def using assms(1,2)
  by (simp add: update_gitnot_def bump_version_def Let_def split: sum.splits prod.splits)

lemma update_gitnot_finished:
  fixes e :: env and r :: repo
  assumes "gitnot_dir r" "load_json (hashes_json r) = Inr old"
    and "for_each (current_step e old (float_add (read_version r) tenth)) (hashes_of (work r))
           (write_version (float_add (read_version r) tenth) r) = Inr r2"
  defines "cur \<equiv> hashes_of (work r)"
    and "v \<equiv> float_add (read_version r) tenth"
  defines "r3 \<equiv> fold (deleted_step e cur v) (keys old) r2"
  shows "update_gitnot e r =
     (if \<not> changes_made old cur then say No_changes (write_version (float_sub v tenth) r3)
      else if snapshot r3 \<noteq> None then
        say (Tracked (length (work r)))
          (say (Version_bumped (format_1f v))
            (save_hashes cur (replace_snapshot e (work r) r3)))
      else say Snapshot_missing r3)"
  using assms(3)
  by (simp add: update_gitnot_unfold [OF assms(1,2)] Let_def cur_def v_def r3_def)

lemma commit_appends:
  "appended r (update_gitnot e r)"
proof (cases "gitnot_dir r")
  case False
  then show ?thesis
    by (simp add: update_gitnot_def say_def appended_def)
next
  case True
  show ?thesis
  proof (cases "load_json (hashes_json r)")
    case (Inl raised)
    with True show ?thesis by (simp add: update_gitnot_def say_frame)
  next
    case (Inr old)
    define v where "v = float_add (read_version r) tenth"
    define res where "res = for_each (current_step e old v) (hashes_of (work r)) (write_version v r)"
    have w: "appended r (write_version v r)"
      by (simp add: appended_def write_version_def)
    have o: "appended (write_version v r) (outcome res)"
      unfolding res_def by (rule current_loop_appended)
    show ?thesis
    proof (cases res)
      case l: (Inl raised)
      obtain x r2 where "raised = (x, r2)" by (cases raised)
      with l o w have "appended r r2"
        by (auto simp: outcome_def intro: appended_trans)
      then have "appended r (say Unexpected_error r2)"
        by (simp add: appended_def say_def)
      moreover have "update_gitnot e r = say Unexpected_error r2"
        using l \<open>raised = (x, r2)\<close>
        by (simp add: update_gitnot_unfold [OF True Inr] v_def [symmetric] res_def [symmetric])
      ultimately show ?thesis by simp
    next
      case rr: (Inr r2)
      define r3 where "r3 = fold (deleted_step e (hashes_of (work r)) v) (keys old) r2"
      have "appended (write_version v r) r3"
        unfolding r3_def using rr [unfolded res_def] by (rule loops_appended)
      with w have a: "appended r r3" by (rule appended_trans)
      have "changelogs (update_gitnot e r) = changelogs r3"
        using rr [unfolded res_def v_def]
        by (simp add: update_gitnot_finished [OF True Inr] v_def [symmetric] r3_def [symmetric]
            say_fields save_hashes_fields write_version_fields replace_snapshot_frame)
      with a show ?thesis by (simp add: appended_def)
    qed
  qed
qed

subsection \<open>A commit that finds no change\<close>

lemma no_change_loops:
  assumes "\<not> changes_made old cur"
  shows "for_each (current_step e old v) cur r = Inr r"
    and "fold (deleted_step e cur v) (keys old) r = r"
proof -
  from assms have c: "\<And>kv. kv \<in> set cur \<Longrightarrow> current_branch old kv = No_branch"
    and d: "\<And>p. p \<in> set (keys old) \<Longrightarrow> \<not> old_branch cur p"
    by (auto simp: changes_made_def)
  show "for_each (current_step e old v) cur r = Inr r"
    by (rule for_each_unchanged) (simp add: current_step_def c)
  show "fold (deleted_step e cur v) (keys old) r = r"
    by (rule fold_unchanged) (simp add: deleted_step_def d)
qed

lemma no_change_commit:
  assumes "gitnot_dir r" "load_json (hashes_json r) = Inr old"
    and "\<not> changes_made old (hashes_of (work r))"
  shows "update_gitnot e r =
     say No_changes
       (r\<lparr>version_txt :=
            Holds (format_1f (float_sub (float_add (read_version r) tenth) tenth))\<rparr>)"
proof -
  have "r\<lparr>gitnot_dir := True, version_txt := x\<rparr> = r\<lparr>version_txt := x\<rparr>" for x
    using assms(1) by (cases r) simp
  then show ?thesis
    using assms(3)
    by (simp add: update_gitnot_unfold [OF assms(1,2)] no_change_loops write_version_def)
qed

lemma tracked_repo_index:
  "load_json (hashes_json tracked_repo) =
     Inr [(''a.txt'', hash_file (Readable ''hello'') ''a.txt'')]"
  by (simp add: tracked_repo_def load_json_def)

lemma tracked_repo_no_change:
  "\<not> changes_made [(''a.txt'', hash_file (Readable ''hello'') ''a.txt'')]
      (hashes_of (work tracked_repo))"
  by (simp add: tracked_repo_def hashes_of_def changes_made_def
      current_branch_def old_branch_def has_key_def keys_def)

text \<open>
  C5, as the claim states it, fails. At the version \<open>1125899906842624.0\<close>, adding
  \<open>0.1\<close> gives the same double \<open>2\<^sup>5\<^sup>0\<close>, and subtracting \<open>0.1\<close> from it gives the double
  an eighth below: a commit that finds no change leaves \<open>1125899906842623.9\<close> in
  \<open>version.txt\<close>. And where \<open>version.txt\<close> is missing, such a commit creates it, with
  the text \<open>0.0\<close>.
\<close>

theorem zero_change_commit_counterexample:
  "gitnot_dir late_repo \<and>
   load_json (hashes_json late_repo) =
     Inr [(''a.txt'', hash_file (Readable ''hello'') ''a.txt'')] \<and>
   \<not> changes_made [(''a.txt'', hash_file (Readable ''hello'') ''a.txt'')]
       (hashes_of (work late_repo)) \<and>
   version_txt late_repo = Holds (One_decimal False 11258999068426240) \<and>
   version_txt (update_gitnot plain_env late_repo) = Holds (One_decimal False 11258999068426239) \<and>
   gitnot_dir unversioned_repo \<and>
   load_json (hashes_json unversioned_repo) =
     Inr [(''a.txt'', hash_file (Readable ''hello'') ''a.txt'')] \<and>
   \<not> changes_made [(''a.txt'', hash_file (Readable ''hello'') ''a.txt'')]
       (hashes_of (work unversioned_repo)) \<and>
   version_txt unversioned_repo = Absent \<and>
   version_txt (update_gitnot plain_env unversioned_repo) = Holds (One_decimal False 0)"
proof -
  let ?old = "[(''a.txt'', hash_file (Readable ''hello'') ''a.txt'')]"
  have g: "gitnot_dir late_repo"
    and v: "version_txt late_repo = Holds (One_decimal False 11258999068426240)"
    by (simp_all add: late_repo_def tracked_repo_def)
  have l: "load_json (hashes_json late_repo) = Inr ?old"
    using tracked_repo_index by (simp add: late_repo_def)
  have n: "\<not> changes_made ?old (hashes_of (work late_repo))"
    using tracked_repo_no_change by (simp add: late_repo_def)
  have "version_txt (update_gitnot plain_env late_repo) =
      Holds (format_1f (float_sub (float_add (read_version late_repo) tenth) tenth))"
    by (simp add: no_change_commit [OF g l n] say_def)
  then have late: "version_txt (update_gitnot plain_env late_repo) =
      Holds (One_decimal False 11258999068426239)"
    using v by (simp add: read_version_def rollback_fails_at_2_50)
  have g': "gitnot_dir unversioned_repo" and v': "version_txt unversioned_repo = Absent"
    by (simp_all add: unversioned_repo_def tracked_repo_def)
  have l': "load_json (hashes_json unversioned_repo) = Inr ?old"
    using tracked_repo_index by (simp add: unversioned_repo_def)
  have n': "\<not> changes_made ?old (hashes_of (work unversioned_repo))"
    using tracked_repo_no_change by (simp add: unversioned_repo_def)
  have "version_txt (update_gitnot plain_env unversioned_repo) =
      Holds (format_1f (float_sub (float_add (read_version unversioned_repo) tenth) tenth))"
    by (simp add: no_change_commit [OF g' l' n'] say_def)
  then have "version_txt (update_gitnot plain_env unversioned_repo) =
      Holds (One_decimal False 0)"
    using v' by (simp add: read_version_def float_add_def float_sub_def to_double_tenth
        to_double_zero format_1f_def round_half_even_def)
  with late g v l n g' v' l' n' show ?thesis by blast
qed

text \<open>
  C5, amended. When \<open>version.txt\<close> holds a version of one decimal from \<open>0.0\<close> to below
  \<open>200000000000000.0\<close>, a commit that loads the hash index and finds no change prints
  that it found none and leaves the repository as it was: \<open>version.txt\<close>,
  \<open>hashes.json\<close> and the snapshot are unchanged. For every such version \<open>V\<close>, reading
  \<open>V\<close>, adding \<open>0.1\<close>, subtracting \<open>0.1\<close> and formatting to one decimal gives the text of
  \<open>V\<close> back.
\<close>

theorem zero_change_commit:
  assumes "gitnot_dir r"
    and "load_json (hashes_json r) = Inr old"
    and "\<not> changes_made old (hashes_of (work r))"
    and "version_txt r = Holds (One_decimal False k)"
    and "k < 2 * 10 ^ 15"
  shows "update_gitnot e r = say No_changes r \<and>
         version_txt (update_gitnot e r) = version_txt r \<and>
         hashes_json (update_gitnot e r) = hashes_json r \<and>
         snapshot (update_gitnot e r) = snapshot r \<and>
         format_1f (float_sub (float_add (float_of_text (One_decimal False k)) tenth) tenth) =
           One_decimal False k"
proof -
  have rt: "format_1f (float_sub (float_add (float_of_text (One_decimal False k)) tenth) tenth) =
      One_decimal False k"
    using assms(5) by (rule rollback_text)
  then have "r\<lparr>version_txt :=
      Holds (format_1f (float_sub (float_add (read_version r) tenth) tenth))\<rparr> = r"
    using assms(4) by (cases r) (simp add: read_version_def)
  then have "update_gitnot e r = say No_changes r"
    by (simp add: no_change_commit [OF assms(1,2,3)])
  with rt show ?thesis by (simp add: say_fields)
qed

theorem zero_change_commit_witness:
  "gitnot_dir tracked_repo \<and>
   load_json (hashes_json tracked_repo) =
     Inr [(''a.txt'', hash_file (Readable ''hello'') ''a.txt'')] \<and>
   \<not> changes_made [(''a.txt'', hash_file (Readable ''hello'') ''a.txt'')]
       (hashes_of (work tracked_repo)) \<and>
   version_txt tracked_repo = Holds (One_decimal False 1) \<and> (1::nat) < 2 * 10 ^ 15 \<and>
   update_gitnot plain_env tracked_repo = say No_changes tracked_repo \<and>
   version_txt (update_gitnot plain_env tracked_repo) = Holds (One_decimal False 1)"
proof -
  have g: "gitnot_dir tracked_repo"
    and v: "version_txt tracked_repo = Holds (One_decimal False 1)"
    by (simp_all add: tracked_repo_def)
  have k: "(1::nat) < 2 * 10 ^ 15" by simp
  show ?thesis
    using zero_change_commit [OF g tracked_repo_index tracked_repo_no_change v k, of plain_env]
      g v k tracked_repo_index tracked_repo_no_change
    by (simp add: say_fields)
qed

subsection \<open>A commit whose snapshot cannot be written\<close>

lemma digest_not_sentinel: "hash_file (Readable content) p \<noteq> ''unreadable-a.txt''"
proof -
  have "length (hash_file (Readable content) p) = 40"
    by (simp add: hash_file_def hexdigest_def length_sha1_hex)
  then show ?thesis by auto
qed

text \<open>
  C1: the code does not do what the claim says. In \<open>unreadable_repo\<close> the file
  \<open>a.txt\<close> can no longer be read: its digest is the sentinel, the commit finds the
  file modified, and \<open>copy2\<close> raises when the new tree is built. The handler removes
  the temporary directory and the old snapshot stays, but the commit goes on and
  writes the new hash index. In \<open>grown_repo\<close>, when \<open>move\<close> raises after \<open>rmtree\<close> has
  removed the old tree, no snapshot is left at all, and the new hash index is
  written as well.
\<close>

theorem failed_snapshot_commit_writes_hashes:
  "snapshot unreadable_repo = Some [''a.txt'' \<mapsto> ''hello''] \<and>
   hashes_json unreadable_repo = Holds [(''a.txt'', hash_file (Readable ''hello'') ''a.txt'')] \<and>
   snapshot (update_gitnot plain_env unreadable_repo) = Some [''a.txt'' \<mapsto> ''hello''] \<and>
   temp_snapshot (update_gitnot plain_env unreadable_repo) = None \<and>
   Warn_snapshot \<in> set (printed (update_gitnot plain_env unreadable_repo)) \<and>
   hashes_json (update_gitnot plain_env unreadable_repo) =
     Holds [(''a.txt'', ''unreadable-a.txt'')] \<and>
   snapshot (update_gitnot stuck_env grown_repo) = None \<and>
   temp_snapshot (update_gitnot stuck_env grown_repo) = None \<and>
   hashes_json (update_gitnot stuck_env grown_repo) =
     Holds [(''a.txt'', hash_file (Readable ''hello'') ''a.txt''),
            (''b.txt'', hash_file (Readable ''new'') ''b.txt'')]"
proof -
  have g: "gitnot_dir unreadable_repo"
    by (simp add: unreadable_repo_def tracked_repo_def)
  have cur: "hashes_of (work unreadable_repo) = [(''a.txt'', ''unreadable-a.txt'')]"
    by (simp add: unreadable_repo_def hashes_of_def hash_file_def basename_def)
  have old: "load_json (hashes_json unreadable_repo) =
      Inr [(''a.txt'', hash_file (Readable ''hello'') ''a.txt'')]"
    by (simp add: unreadable_repo_def tracked_repo_def load_json_def)
  have br: "current_branch [(''a.txt'', hash_file (Readable ''hello'') ''a.txt'')]
      (''a.txt'', ''unreadable-a.txt'') = Modified_file"
    by (simp add: current_branch_def has_key_def digest_not_sentinel)
  have ch: "changes_made [(''a.txt'', hash_file (Readable ''hello'') ''a.txt'')]
      [(''a.txt'', ''unreadable-a.txt'')]"
    by (simp add: changes_made_def br)
  have nd: "\<not> old_branch [(''a.txt'', ''unreadable-a.txt'')] ''a.txt''"
    by (simp add: old_branch_def has_key_def)
  have first: "snapshot unreadable_repo = Some [''a.txt'' \<mapsto> ''hello''] \<and>
     hashes_json unreadable_repo = Holds [(''a.txt'', hash_file (Readable ''hello'') ''a.txt'')] \<and>
     snapshot (update_gitnot plain_env unreadable_repo) = Some [''a.txt'' \<mapsto> ''hello''] \<and>
     temp_snapshot (update_gitnot plain_env unreadable_repo) = None \<and>
     Warn_snapshot \<in> set (printed (update_gitnot plain_env unreadable_repo)) \<and>
     hashes_json (update_gitnot plain_env unreadable_repo) =
       Holds [(''a.txt'', ''unreadable-a.txt'')]"
    by (simp add: update_gitnot_unfold [OF g old] keys_def)
       (simp add: unreadable_repo_def tracked_repo_def current_step_def modified_file_step_def
        cur [unfolded unreadable_repo_def tracked_repo_def, simplified] ch keys_def
        br deleted_step_def nd
        snapshot_file_def append_changelog_def plain_env_def write_version_def
        replace_snapshot_def snapshot_failed_def say_def save_hashes_def Let_def)
  have g': "gitnot_dir grown_repo"
    by (simp add: grown_repo_def tracked_repo_def)
  have cur': "hashes_of (work grown_repo) =
      [(''a.txt'', hash_file (Readable ''hello'') ''a.txt''),
       (''b.txt'', hash_file (Readable ''new'') ''b.txt'')]"
    by (simp add: grown_repo_def hashes_of_def)
  have old': "load_json (hashes_json grown_repo) =
      Inr [(''a.txt'', hash_file (Readable ''hello'') ''a.txt'')]"
    by (simp add: grown_repo_def tracked_repo_def load_json_def)
  have br': "current_branch [(''a.txt'', hash_file (Readable ''hello'') ''a.txt'')]
      (''a.txt'', hash_file (Readable ''hello'') ''a.txt'') = No_branch"
    "current_branch [(''a.txt'', hash_file (Readable ''hello'') ''a.txt'')]
      (''b.txt'', hash_file (Readable ''new'') ''b.txt'') = New_file"
    by (simp_all add: current_branch_def has_key_def)
  have ch': "changes_made [(''a.txt'', hash_file (Readable ''hello'') ''a.txt'')]
      [(''a.txt'', hash_file (Readable ''hello'') ''a.txt''),
       (''b.txt'', hash_file (Readable ''new'') ''b.txt'')]"
    by (simp add: changes_made_def br')
  have nd': "\<not> old_branch [(''a.txt'', hash_file (Readable ''hello'') ''a.txt''),
       (''b.txt'', hash_file (Readable ''new'') ''b.txt'')] ''a.txt''"
    by (simp add: old_branch_def has_key_def)
  have second: "snapshot (update_gitnot stuck_env grown_repo) = None \<and>
     temp_snapshot (update_gitnot stuck_env grown_repo) = None \<and>
     hashes_json (update_gitnot stuck_env grown_repo) =
       Holds [(''a.txt'', hash_file (Readable ''hello'') ''a.txt''),
              (''b.txt'', hash_file (Readable ''new'') ''b.txt'')]"
    by (simp add: update_gitnot_unfold [OF g' old'] keys_def)
       (simp add: grown_repo_def tracked_repo_def current_step_def new_file_step_def
        cur' [unfolded grown_repo_def tracked_repo_def, simplified] ch' keys_def
        br' deleted_step_def nd'
        snapshot_file_def append_changelog_def plain_env_def stuck_env_def write_version_def
        replace_snapshot_def snapshot_failed_def say_def save_hashes_def Let_def)
  from first second show ?thesis by blast
qed

subsection \<open>Changelogs\<close>

lemma init_file_logs:
  "changelogs (snd (init_file e fl acc)) p =
     (if fst fl = p \<and> (\<exists>content. snd fl = Readable content) \<and> \<not> log_locked e p
      then Some (seed_line p) else changelogs (snd acc) p)"
  by (cases acc; cases fl) (auto simp: init_file_def say_def Let_def split: work_file.splits)

lemma init_loop_logs:
  "changelogs (snd (fold (init_file e) files acc)) p =
     (if (\<exists>content. (p, Readable content) \<in> set files) \<and> \<not> log_locked e p
      then Some (seed_line p) else changelogs (snd acc) p)"
proof (induction files arbitrary: acc)
  case Nil
  then show ?case by simp
next
  case (Cons fl files)
  obtain q f where fl: "fl = (q, f)" by (cases fl)
  show ?case
    using Cons.IH [of "init_file e fl acc"]
    by (auto simp: init_file_logs fl)
qed

lemma init_gitnot_logs:
  "changelogs (init_gitnot e r) p =
     (if (\<exists>content. (p, Readable content) \<in> set (work r)) \<and> \<not> log_locked e p
      then Some (seed_line p) else changelogs r p)"
proof -
  define r0 where "r0 = r\<lparr>gitnot_dir := True,
      snapshot := Some (case snapshot r of None \<Rightarrow> Map.empty | Some s \<Rightarrow> s)\<rparr>"
  have "changelogs (init_gitnot e r) =
      changelogs (snd (fold (init_file e) (work r0) ([], r0)))"
    by (simp add: init_gitnot_def r0_def [symmetric] Let_def say_fields write_version_fields
        save_hashes_fields split: prod.splits)
  moreover have "work r0 = work r" "changelogs r0 = changelogs r"
    by (simp_all add: r0_def)
  ultimately show ?thesis by (simp add: init_loop_logs)
qed

text \<open>
  C6, as the claim states it, fails: \<open>gitnot --init\<close> opens the changelog of every
  file it tracks with mode \<open>'w'\<close>. Run again in \<open>logged_repo\<close>, it leaves the seed
  line alone in the changelog of \<open>a.txt\<close>; the later entries are gone.
\<close>

theorem init_rewrites_changelog_counterexample:
  "changelogs logged_repo ''a.txt'' = Some (seed_line ''a.txt'' @ ''later entries'') \<and>
   changelogs (init_gitnot plain_env logged_repo) ''a.txt'' = Some (seed_line ''a.txt'') \<and>
   length (seed_line ''a.txt'') < length (seed_line ''a.txt'' @ ''later entries'')"
  by (simp add: logged_repo_def tracked_repo_def init_gitnot_def init_file_def plain_env_def
      Let_def say_def write_version_def save_hashes_def dict_set_def has_key_def)

text \<open>
  C6, amended. A commit never rewrites or deletes what a changelog holds: it only
  appends to the changelog of a path, or creates it, and the changelog of a file
  that was deleted stays. The status query and the version query leave every
  changelog as it is. Initialisation is the exception. The changelog of a path is
  replaced by the seed line when the path is one of the files that initialisation
  tracks, the file can be copied into the snapshot and the changelog can be opened
  for writing; in every other case the changelog is left as it is.
\<close>

theorem changelogs_append_only:
  "(changelogs r p = Some old \<longrightarrow>
      (\<exists>more. changelogs (update_gitnot e r) p = Some (old @ more))) \<and>
   changelogs (show_status r) = changelogs r \<and>
   changelogs (show_version r) = changelogs r \<and>
   changelogs (init_gitnot e r) p =
     (if (\<exists>content. (p, Readable content) \<in> set (work r)) \<and> \<not> log_locked e p
      then Some (seed_line p) else changelogs r p)"
proof -
  have "\<exists>more. changelogs (update_gitnot e r) p = Some (old @ more)"
    if "changelogs r p = Some old"
    using commit_appends [of r e] that unfolding appended_def by blast
  moreover have "changelogs (show_status r) = changelogs r"
    by (simp add: show_status_def Let_def say_fields split: sum.splits)
  moreover have "changelogs (show_version r) = changelogs r"
    by (simp add: show_version_def say_fields)
  ultimately show ?thesis
    using init_gitnot_logs [of e r p] by blast
qed

theorem changelogs_append_only_witness:
  "changelogs emptied_repo ''a.txt'' = Some (seed_line ''a.txt'' @ ''later entries'') \<and>
   work emptied_repo = [] \<and>
   changelogs (update_gitnot plain_env emptied_repo) ''a.txt'' =
     Some ((seed_line ''a.txt'' @ ''later entries'') @
           heading (float_add (float_of_text (One_decimal False 1)) tenth) ''2024-05-01 12:00'' @
           deleted_marker) \<and>
   changelogs (show_status emptied_repo) ''a.txt'' = Some (seed_line ''a.txt'' @ ''later entries'') \<and>
   changelogs (show_version emptied_repo) ''a.txt'' = Some (seed_line ''a.txt'' @ ''later entries'') \<and>
   changelogs (init_gitnot plain_env emptied_repo) ''a.txt'' =
     Some (seed_line ''a.txt'' @ ''later entries'') \<and>
   changelogs (init_gitnot plain_env logged_repo) ''a.txt'' = Some (seed_line ''a.txt'') \<and>
   changelogs (init_gitnot locked_env logged_repo) ''a.txt'' =
     Some (seed_line ''a.txt'' @ ''later entries'')"
proof -
  let ?old = "seed_line ''a.txt'' @ ''later entries''"
  let ?more = "heading (float_add (float_of_text (One_decimal False 1)) tenth) ''2024-05-01 12:00'' @
      deleted_marker"
  have h: "changelogs emptied_repo ''a.txt'' = Some ?old" "work emptied_repo = []"
    and h': "changelogs logged_repo ''a.txt'' = Some ?old"
      "work logged_repo = [(''a.txt'', Readable ''hello'')]"
    by (simp_all add: emptied_repo_def logged_repo_def tracked_repo_def)
  have env: "\<not> log_locked plain_env ''a.txt''" "log_locked locked_env ''a.txt''"
    by (simp_all add: plain_env_def locked_env_def)
  note t = changelogs_append_only [of emptied_repo "''a.txt''" ?old plain_env]
  from t h(1) obtain more where
    m: "changelogs (update_gitnot plain_env emptied_repo) ''a.txt'' = Some (?old @ more)"
    by blast
  have g: "gitnot_dir emptied_repo"
    and l: "load_json (hashes_json emptied_repo) =
      Inr [(''a.txt'', hash_file (Readable ''hello'') ''a.txt'')]"
    by (simp_all add: emptied_repo_def logged_repo_def tracked_repo_def load_json_def)
  have "changelogs (update_gitnot plain_env emptied_repo) ''a.txt'' = Some (?old @ ?more)"
    by (simp add: update_gitnot_unfold [OF g l])
       (simp add: emptied_repo_def logged_repo_def tracked_repo_def hashes_of_def keys_def
         deleted_step_def deleted_file_step_def old_branch_def has_key_def changes_made_def
         move_to_deleted_def append_changelog_def plain_env_def write_version_def
         replace_snapshot_def say_def save_hashes_def read_version_def Let_def)
  with m have u: "changelogs (update_gitnot plain_env emptied_repo) ''a.txt'' = Some (?old @ ?more)"
    by simp
  from t have "changelogs (show_status emptied_repo) = changelogs emptied_repo"
    and "changelogs (show_version emptied_repo) = changelogs emptied_repo"
    by blast+
  then have s: "changelogs (show_status emptied_repo) ''a.txt'' = Some ?old"
    "changelogs (show_version emptied_repo) ''a.txt'' = Some ?old"
    using h(1) by simp_all
  from t have "changelogs (init_gitnot plain_env emptied_repo) ''a.txt'' =
      (if (\<exists>content. (''a.txt'', Readable content) \<in> set (work emptied_repo)) \<and>
          \<not> log_locked plain_env ''a.txt''
       then Some (seed_line ''a.txt'') else changelogs emptied_repo ''a.txt'')"
    by blast
  then have i1: "changelogs (init_gitnot plain_env emptied_repo) ''a.txt'' = Some ?old"
    using h by simp
  have "changelogs (init_gitnot plain_env logged_repo) ''a.txt'' =
      (if (\<exists>content. (''a.txt'', Readable content) \<in> set (work logged_repo)) \<and>
          \<not> log_locked plain_env ''a.txt''
       then Some (seed_line ''a.txt'') else changelogs logged_repo ''a.txt'')"
    using changelogs_append_only [of logged_repo "''a.txt''" ?old plain_env] by blast
  then have i2: "changelogs (init_gitnot plain_env logged_repo) ''a.txt'' = Some (seed_line ''a.txt'')"
    using h' env by simp
  have "changelogs (init_gitnot locked_env logged_repo) ''a.txt'' =
      (if (\<exists>content. (''a.txt'', Readable content) \<in> set (work logged_repo)) \<and>
          \<not> log_locked locked_env ''a.txt''
       then Some (seed_line ''a.txt'') else changelogs logged_repo ''a.txt'')"
    using changelogs_append_only [of logged_repo "''a.txt''" ?old locked_env] by blast
  then have i3: "changelogs (init_gitnot locked_env logged_repo) ''a.txt'' = Some ?old"
    using h' env by simp
  from h u s i1 i2 i3 show ?thesis by blast
qed

subsection \<open>What a commit prints when nothing fails\<close>

lemma append_changelog_quiet:
  "\<not> log_locked e p \<Longrightarrow> printed (append_changelog e p t r) = printed r"
  by (simp add: append_changelog_def)

lemma new_file_step_quiet:
  "\<not> log_locked e p \<Longrightarrow> printed (new_file_step e v p r) = printed r"
  by (simp add: new_file_step_def append_changelog_quiet)

lemma materialize_readable:
  "\<forall>fl \<in> set files. snd fl \<noteq> Unreadable \<Longrightarrow> \<exists>full. materialize files t = Inr full"
proof (induction files arbitrary: t)
  case Nil
  then show ?case by simp
next
  case (Cons fl files)
  obtain p f where fl: "fl = (p, f)" by (cases fl)
  with Cons.prems obtain content where "f = Readable content" by (cases f) auto
  with Cons fl show ?case by simp
qed

lemma replace_snapshot_quiet:
  assumes "\<forall>fl \<in> set files. snd fl \<noteq> Unreadable" "\<not> rmtree_fails e" "\<not> move_fails e"
  shows "printed (replace_snapshot e files r) = printed r"
proof -
  obtain full where "materialize files Map.empty = Inr full"
    using materialize_readable [OF assms(1)] by blast
  then show ?thesis
    using assms(2,3) by (simp add: replace_snapshot_def Let_def)
qed

lemma first_bump: "format_1f (float_add (float_of_text (One_decimal False 1)) tenth) =
    One_decimal False 2"
proof -
  have x1: "float_of_text (One_decimal False 1) = tenth"
    by (simp add: float_of_text_def tenth_def)
  have "to_double (tenth + tenth) = of_int 7205759403792794 * two_pow (- 3 - 52)"
    by (rule to_double_at) (simp_all add: tenth_value two_pow_def)
  then have x2: "float_add tenth tenth = 3602879701896397 / 18014398509481984"
    by (simp add: float_add_def two_pow_def)
  have "round_half_even (10 * (3602879701896397 / 18014398509481984)) = 2"
    by (rule round_half_even_near) simp
  then show ?thesis unfolding x1 x2 format_1f_def by simp
qed

subsection \<open>A hash index that is missing or cannot be loaded\<close>

lemma empty_index_branch: "current_branch [] kv = New_file"
  by (cases kv) (simp add: current_branch_def has_key_def)

lemma empty_index_step: "current_step e [] v kv r = Inr (new_file_step e v (fst kv) r)"
  by (simp add: current_step_def empty_index_branch)

lemma empty_index_loop:
  "for_each (current_step e [] v) cur r = Inr (fold (new_file_step e v) (keys cur) r)"
proof -
  have "for_each (current_step e [] v) cur r =
      Inr (fold (\<lambda>kv. new_file_step e v (fst kv)) cur r)"
    by (rule for_each_total) (rule empty_index_step)
  then show ?thesis by (simp add: keys_def fold_map comp_def)
qed

lemma new_file_loop_frame:
  "same_but_logs r (fold (new_file_step e v) ps r)"
  by (rule fold_invariant [where P = "same_but_logs r"])
     (auto simp: new_file_step_def intro: same_but_logs_refl same_but_logs_trans
       append_changelog_frame)

lemma new_file_loop_quiet:
  assumes "\<forall>p. \<not> log_locked e p"
  shows "printed (fold (new_file_step e v) ps r) = printed r"
  by (rule fold_invariant [where P = "\<lambda>r'. printed r' = printed r"])
     (simp_all add: new_file_step_quiet assms)

lemma empty_index_commit:
  fixes e :: env and r :: repo
  assumes "gitnot_dir r" "load_json (hashes_json r) = Inr []" "work r \<noteq> []"
    and "snapshot r \<noteq> None"
  defines "v \<equiv> float_add (read_version r) tenth"
  defines "r2 \<equiv> fold (new_file_step e v) (keys (hashes_of (work r))) (write_version v r)"
  shows "update_gitnot e r =
     say (Tracked (length (work r)))
       (say (Version_bumped (format_1f v))
         (save_hashes (hashes_of (work r)) (replace_snapshot e (work r) r2)))"
proof -
  obtain kv where "kv \<in> set (hashes_of (work r))"
    using assms(3) by (cases "work r") (auto simp: hashes_of_def)
  then have ch: "changes_made [] (hashes_of (work r))"
    unfolding changes_made_def using empty_index_branch
    by (intro disjI1 bexI [of _ kv]) simp_all
  have "same_but_logs (write_version v r) r2"
    unfolding r2_def by (rule new_file_loop_frame)
  then have "snapshot r2 \<noteq> None"
    using assms(4) by (simp add: same_but_logs_def write_version_def)
  then show ?thesis
    using ch
    by (simp add: update_gitnot_unfold [OF assms(1,2)] empty_index_loop keys_def [of "[]"]
        v_def [symmetric] r2_def [symmetric])
qed

text \<open>
  C10, as the claim states it, fails. In \<open>nested_repo\<close> the file \<open>hashes.json\<close> holds
  text that cannot be parsed as JSON, on which \<open>json.load\<close> raises \<open>RecursionError\<close>.
  The handler of \<open>load_json\<close> does not catch it: loading raises, the commit prints
  that an unexpected error has occurred, the status query prints that it could not
  check the status, and neither takes the tracked file for an added one. The hash
  index and the version stay as they are.
\<close>

theorem unloadable_index_counterexample:
  "hashes_json nested_repo = Rejected RecursionError \<and>
   work nested_repo = [(''a.txt'', Readable ''hello'')] \<and>
   load_json (hashes_json nested_repo) = Inl RecursionError \<and>
   update_gitnot plain_env nested_repo = say Unexpected_error nested_repo \<and>
   printed (update_gitnot plain_env nested_repo) = [Unexpected_error] \<and>
   hashes_json (update_gitnot plain_env nested_repo) = Rejected RecursionError \<and>
   version_txt (update_gitnot plain_env nested_repo) = Holds (One_decimal False 1) \<and>
   show_status nested_repo = say Status_error nested_repo \<and>
   printed (show_status nested_repo) = [Status_error]"
  by (simp add: nested_repo_def tracked_repo_def load_json_def update_gitnot_def show_status_def
      say_def)

text \<open>
  C10, amended. When \<open>hashes.json\<close> is missing, or \<open>json.load\<close> raises \<open>JSONDecodeError\<close>
  or \<open>UnicodeDecodeError\<close> on it, loading it gives the empty map and raises nothing.
  The status query and the commit then take every tracked file for a new one and
  none for modified or deleted: the lists of the status query say so, the body of
  the first loop of the commit takes its new-file branch on every tracked file,
  and the second loop has nothing to run over. The status query reports all the
  files as new, and a commit in a repository with a snapshot directory and at least
  one tracked file writes the hashes of the current files as the new index. When
  nothing else fails, that commit prints the new version and the number of files
  it tracks, as any commit does, and nothing about the index that was lost. When
  \<open>json.load\<close> raises another exception, \<open>RecursionError\<close> or a \<open>ValueError\<close> that is no
  \<open>JSONDecodeError\<close>, loading raises it: the commit and the status query print an
  error and leave the repository as it is.
\<close>

theorem lost_index_rebaselines:
  assumes "hashes_json r = Absent \<or> hashes_json r = Rejected JSONDecodeError \<or>
           hashes_json r = Rejected UnicodeDecodeError"
  shows "load_json (hashes_json r) = Inr [] \<and>
         new_files [] (hashes_of (work r)) = keys (hashes_of (work r)) \<and>
         changed_files [] (hashes_of (work r)) = [] \<and>
         deleted_files [] (hashes_of (work r)) = [] \<and>
         (\<forall>kv \<in> set (hashes_of (work r)).
            current_step e [] v kv q = Inr (new_file_step e v (fst kv) q)) \<and>
         for_each (current_step e [] v) (hashes_of (work r)) q =
           Inr (fold (new_file_step e v) (keys (hashes_of (work r))) q) \<and>
         fold (deleted_step e (hashes_of (work r)) v) (keys []) q = q \<and>
         (gitnot_dir r \<and> work r \<noteq> [] \<longrightarrow>
            printed (show_status r) = printed r @ [Status_new (keys (hashes_of (work r)))]) \<and>
         (gitnot_dir r \<and> work r \<noteq> [] \<and> snapshot r \<noteq> None \<longrightarrow>
            hashes_json (update_gitnot e r) = Holds (hashes_of (work r))) \<and>
         (gitnot_dir r \<and> work r \<noteq> [] \<and> snapshot r \<noteq> None \<and>
          (\<forall>p. \<not> log_locked e p) \<and> \<not> rmtree_fails e \<and> \<not> move_fails e \<and>
          (\<forall>fl \<in> set (work r). snd fl \<noteq> Unreadable) \<longrightarrow>
            printed (update_gitnot e r) =
              printed r @ [Version_bumped (format_1f (float_add (read_version r) tenth)),
                           Tracked (length (work r))]) \<and>
         (gitnot_dir b \<and>
          (hashes_json b = Rejected RecursionError \<or> hashes_json b = Rejected Digits_ValueError) \<longrightarrow>
            update_gitnot e b = say Unexpected_error b \<and> show_status b = say Status_error b)"
proof -
  have l: "load_json (hashes_json r) = Inr []"
    using assms by (auto simp: load_json_def)
  have n: "new_files [] cur = keys cur" and c: "changed_files [] cur = []"
    and d: "deleted_files [] cur = []" for cur
    by (simp_all add: new_files_def changed_files_def deleted_files_def has_key_def keys_def)
  have s1: "\<forall>kv \<in> set (hashes_of (work r)).
      current_step e [] v kv q = Inr (new_file_step e v (fst kv) q)"
    by (simp add: empty_index_step)
  have s2: "for_each (current_step e [] v) (hashes_of (work r)) q =
      Inr (fold (new_file_step e v) (keys (hashes_of (work r))) q)"
    by (rule empty_index_loop)
  have s3: "fold (deleted_step e (hashes_of (work r)) v) (keys []) q = q"
    by (simp add: keys_def)
  have st: "printed (show_status r) = printed r @ [Status_new (keys (hashes_of (work r)))]"
    if "gitnot_dir r \<and> work r \<noteq> []"
    using that
    by (simp add: show_status_def l n c d status_no_changes_def Let_def say_def keys_def
        hashes_of_def)
  have up: "hashes_json (update_gitnot e r) = Holds (hashes_of (work r))"
    if "gitnot_dir r \<and> work r \<noteq> [] \<and> snapshot r \<noteq> None"
    using that by (simp add: empty_index_commit [OF _ l] say_fields save_hashes_fields)
  have pr: "printed (update_gitnot e r) =
      printed r @ [Version_bumped (format_1f (float_add (read_version r) tenth)),
                   Tracked (length (work r))]"
    if a: "gitnot_dir r \<and> work r \<noteq> [] \<and> snapshot r \<noteq> None \<and>
      (\<forall>p. \<not> log_locked e p) \<and> \<not> rmtree_fails e \<and> \<not> move_fails e \<and>
      (\<forall>fl \<in> set (work r). snd fl \<noteq> Unreadable)"
  proof -
    let ?v = "float_add (read_version r) tenth"
    let ?r2 = "fold (new_file_step e ?v) (keys (hashes_of (work r))) (write_version ?v r)"
    have "printed ?r2 = printed (write_version ?v r)"
      using a by (intro new_file_loop_quiet) simp
    then have "printed ?r2 = printed r" by (simp add: write_version_def)
    moreover have "printed (replace_snapshot e (work r) ?r2) = printed ?r2"
      using a by (intro replace_snapshot_quiet) simp_all
    ultimately show ?thesis
      using a by (simp add: empty_index_commit [OF _ l] say_def save_hashes_def)
  qed
  have er: "update_gitnot e b = say Unexpected_error b \<and> show_status b = say Status_error b"
    if "gitnot_dir b \<and>
      (hashes_json b = Rejected RecursionError \<or> hashes_json b = Rejected Digits_ValueError)"
    using that by (auto simp: update_gitnot_def show_status_def load_json_def)
  from l n c d s1 s2 s3 st up pr er show ?thesis by blast
qed

theorem lost_index_rebaselines_witness:
  "(hashes_json garbled_repo = Absent \<or> hashes_json garbled_repo = Rejected JSONDecodeError \<or>
    hashes_json garbled_repo = Rejected UnicodeDecodeError) \<and>
   gitnot_dir garbled_repo \<and> work garbled_repo \<noteq> [] \<and> snapshot garbled_repo \<noteq> None \<and>
   load_json (hashes_json garbled_repo) = Inr [] \<and>
   new_files [] (hashes_of (work garbled_repo)) = [''a.txt''] \<and>
   printed (show_status garbled_repo) = [Status_new [''a.txt'']] \<and>
   hashes_json (update_gitnot plain_env garbled_repo) =
     Holds [(''a.txt'', hash_file (Readable ''hello'') ''a.txt'')] \<and>
   printed (update_gitnot plain_env garbled_repo) =
     [Version_bumped (One_decimal False 2), Tracked 1] \<and>
   update_gitnot plain_env (tracked_repo\<lparr>hashes_json := Rejected Digits_ValueError\<rparr>) =
     say Unexpected_error (tracked_repo\<lparr>hashes_json := Rejected Digits_ValueError\<rparr>) \<and>
   show_status (tracked_repo\<lparr>hashes_json := Rejected Digits_ValueError\<rparr>) =
     say Status_error (tracked_repo\<lparr>hashes_json := Rejected Digits_ValueError\<rparr>)"
proof -
  let ?b = "tracked_repo\<lparr>hashes_json := Rejected Digits_ValueError\<rparr>"
  have h: "hashes_json garbled_repo = Absent \<or> hashes_json garbled_repo = Rejected JSONDecodeError \<or>
      hashes_json garbled_repo = Rejected UnicodeDecodeError"
    and g: "gitnot_dir garbled_repo" "work garbled_repo \<noteq> []" "snapshot garbled_repo \<noteq> None"
    and p: "printed garbled_repo = []"
    and k: "hashes_of (work garbled_repo) = [(''a.txt'', hash_file (Readable ''hello'') ''a.txt'')]"
    and w: "length (work garbled_repo) = 1"
      "\<forall>fl \<in> set (work garbled_repo). snd fl \<noteq> Unreadable"
    and v: "read_version garbled_repo = float_of_text (One_decimal False 1)"
    by (simp_all add: garbled_repo_def tracked_repo_def hashes_of_def read_version_def)
  have e: "\<forall>p. \<not> log_locked plain_env p" "\<not> rmtree_fails plain_env" "\<not> move_fails plain_env"
    by (simp_all add: plain_env_def)
  have b: "gitnot_dir ?b"
    "hashes_json ?b = Rejected RecursionError \<or> hashes_json ?b = Rejected Digits_ValueError"
    by (simp_all add: tracked_repo_def)
  note t = lost_index_rebaselines [OF h, of plain_env tenth garbled_repo ?b]
  from t have l: "load_json (hashes_json garbled_repo) = Inr []"
    by blast
  from t have "new_files [] (hashes_of (work garbled_repo)) = keys (hashes_of (work garbled_repo))"
    by blast
  then have n: "new_files [] (hashes_of (work garbled_repo)) = [''a.txt'']"
    by (simp add: k keys_def)
  from t g have "printed (show_status garbled_repo) =
      printed garbled_repo @ [Status_new (keys (hashes_of (work garbled_repo)))]"
    by blast
  then have s: "printed (show_status garbled_repo) = [Status_new [''a.txt'']]"
    by (simp add: k p keys_def)
  from t g have "hashes_json (update_gitnot plain_env garbled_repo) =
      Holds (hashes_of (work garbled_repo))"
    by blast
  then have u: "hashes_json (update_gitnot plain_env garbled_repo) =
      Holds [(''a.txt'', hash_file (Readable ''hello'') ''a.txt'')]"
    by (simp add: k)
  from t g e w(2) have "printed (update_gitnot plain_env garbled_repo) =
      printed garbled_repo @
        [Version_bumped (format_1f (float_add (read_version garbled_repo) tenth)),
         Tracked (length (work garbled_repo))]"
    by blast
  then have q: "printed (update_gitnot plain_env garbled_repo) =
      [Version_bumped (One_decimal False 2), Tracked 1]"
    unfolding p v first_bump w(1) by simp
  from t b have x: "update_gitnot plain_env ?b = say Unexpected_error ?b"
    "show_status ?b = say Status_error ?b"
    by blast+
  from h g l n s u q x show ?thesis by blast
qed

end
